theory Spec2Isabelle
  imports Complex_Main
begin

section \<open>Data model of the signaling hub (the server's \<open>setupSignaling\<close>)\<close>

text \<open>
  A WebSocket connection object is identified by a handle. The hub compares connections
  only by identity (\<open>room.sender !== ws\<close>, \<open>Set<WebSocket>\<close>, \<open>Map<WebSocket, SocketMeta>\<close>).
\<close>

type_synonym ws = nat

text \<open>
  \<open>interface Room { sender: WebSocket | null; receivers: Set<WebSocket>; code: string }\<close>.
  A JavaScript \<open>Set\<close> iterates in insertion order, and the relay loop stops at the first
  match, so the set is a list in insertion order (see \<open>set_add\<close>, \<open>set_delete\<close>).
\<close>

record Room =
  sender :: "ws option"
  receivers :: "ws list"
  code :: string

text \<open>\<open>interface SocketMeta { role: string | null; peerId?: string; roomName?: string }\<close>\<close>

record SocketMeta =
  role :: "string option"
  peerId :: "string option"
  roomName :: "string option"

text \<open>
  \<open>interface SignalMessage\<close> (types.ts): a mandatory \<open>type\<close> and optional string fields.
  The fields the hub never reads (\<open>sdp\<close>, \<open>candidate\<close>, any other key) are carried
  opaquely in \<open>msg_rest\<close>.
\<close>

record SignalMessage =
  msg_type :: string
  msg_room :: "string option"
  msg_role :: "string option"
  msg_code :: "string option"
  msg_to :: "string option"
  msg_from :: "string option"
  msg_peerId :: "string option"
  msg_rest :: "(string \<times> string) list"

text \<open>The JSON objects the hub passes to \<open>send\<close>.\<close>

datatype reply =
    JoinDenied string
  | RoleChanged string
  | RoomCode string
  | SenderReady
  | Joined string
  | SenderLeft
  | ReceiverLeft "string option"
  | Forwarded SignalMessage

text \<open>One call \<open>target.send(JSON.stringify(obj))\<close>; a handler's output is the list of its
  calls in program order.\<close>

type_synonym sent = "ws \<times> reply"

text \<open>The two tables of \<open>setupSignaling\<close>: \<open>rooms: Map<string, Room>\<close> and
  \<open>socketMeta: Map<WebSocket, SocketMeta>\<close>.\<close>

record Hub =
  rooms :: "string \<rightharpoonup> Room"
  socketMeta :: "ws \<rightharpoonup> SocketMeta"

text \<open>Dereferencing \<open>undefined\<close> (a \<open>getMeta\<close> of a connection without an entry) throws.\<close>

datatype error = TypeError

section \<open>Helpers\<close>

text \<open>JavaScript truthiness of a value of type \<open>string | undefined\<close>.\<close>

definition truthy :: "string option \<Rightarrow> bool" where
  "truthy x = (case x of None \<Rightarrow> False | Some s \<Rightarrow> s \<noteq> [])"

text \<open>\<open>Set.prototype.add\<close> and \<open>Set.prototype.delete\<close> on an insertion-ordered set.\<close>

definition set_add :: "ws \<Rightarrow> ws list \<Rightarrow> ws list" where
  "set_add x xs = (if x \<in> set xs then xs else xs @ [x])"

definition set_delete :: "ws \<Rightarrow> ws list \<Rightarrow> ws list" where
  "set_delete x xs = removeAll x xs"

text \<open>\<open>Number.prototype.toString()\<close> on an integer: its decimal digits.\<close>

definition digit_char :: "nat \<Rightarrow> char" where
  "digit_char n = ''0123456789'' ! n"

fun toString_nat :: "nat \<Rightarrow> string" where
  "toString_nat n =
     (if n < 10 then [digit_char n] else toString_nat (n div 10) @ [digit_char (n mod 10)])"

declare toString_nat.simps [simp del]

definition toString :: "int \<Rightarrow> string" where
  "toString i = (if i < 0 then CHR ''-'' # toString_nat (nat (- i)) else toString_nat (nat i))"

text \<open>
  JavaScript numbers are IEEE 754 binary64 values, and \<open>*\<close> and \<open>+\<close> round the exact result
  to the nearest such value, ties to the even significand. \<open>round_double\<close> is that rounding
  on the reals, for magnitudes below the overflow threshold (every number this program
  computes lies in \<open>[0, 10001)\<close>). A positive double in the binade \<open>[2^e, 2^(e+1))\<close> is an integer
  multiple of \<open>2^(e - 52)\<close>, and below \<open>2^(-1022)\<close> (subnormal numbers) of \<open>2^(-1074)\<close>.
  \<open>halvings x\<close> is the binade exponent of \<open>x \<ge> 1\<close>; \<open>doublings 1022 x\<close> is its negation for
  \<open>x < 1\<close>, capped at 1022; \<open>ulp x\<close> is the spacing of the doubles around \<open>x \<ge> 0\<close>.
\<close>

function halvings :: "real \<Rightarrow> nat" where
  "halvings x = (if x < 2 then 0 else Suc (halvings (x / 2)))"
  by pat_completeness auto
termination
proof (relation "measure (\<lambda>x. nat \<lfloor>x\<rfloor>)")
  show "wf (measure (\<lambda>x. nat \<lfloor>x\<rfloor>))" by simp
next
  fix x :: real assume "\<not> x < 2"
  then have x: "2 \<le> x" by simp
  then have "x / 2 \<le> x - 1" by simp
  then have "\<lfloor>x / 2\<rfloor> \<le> \<lfloor>x - 1\<rfloor>" by (rule floor_mono)
  then have "\<lfloor>x / 2\<rfloor> < \<lfloor>x\<rfloor>" by simp
  moreover have "0 < \<lfloor>x\<rfloor>" using x by simp
  ultimately show "(x / 2, x) \<in> measure (\<lambda>x. nat \<lfloor>x\<rfloor>)" by simp
qed

declare halvings.simps [simp del]

fun doublings :: "nat \<Rightarrow> real \<Rightarrow> nat" where
  "doublings 0 x = 0"
| "doublings (Suc n) x = (if 1 \<le> x then 0 else Suc (doublings n (2 * x)))"

definition ulp :: "real \<Rightarrow> real" where
  "ulp x = (if 1 \<le> x then 2 ^ halvings x / 2 ^ 52 else 1 / (2 ^ doublings 1022 x * 2 ^ 52))"

text \<open>Rounding to the nearest integer, a tie going to the even one.\<close>

definition round_even :: "real \<Rightarrow> int" where
  "round_even q =
     (let f = \<lfloor>q\<rfloor>; d = q - of_int f
      in if d < 1 / 2 then f else if 1 / 2 < d then f + 1 else if even f then f else f + 1)"

definition round_double :: "real \<Rightarrow> real" where
  "round_double x =
     (if x < 0 then - (ulp (- x) * of_int (round_even (- x / ulp (- x))))
      else ulp x * of_int (round_even (x / ulp x)))"

text \<open>The reals that are doubles: the ones rounding leaves alone.\<close>

definition is_double :: "real \<Rightarrow> bool" where
  "is_double x = (round_double x = x)"

text \<open>
  \<open>generateRoomCode\<close>: \<open>Math.floor(1000 + Math.random() * 9000).toString()\<close>. The value
  \<open>Math.random()\<close> returns is the argument \<open>rnd\<close>, a double in \<open>[0, 1)\<close>. The product and the
  sum are the rounded ones; \<open>Math.floor\<close> is exact.
\<close>

definition generateRoomCode :: "real \<Rightarrow> string" where
  "generateRoomCode rnd = toString \<lfloor>round_double (1000 + round_double (rnd * 9000))\<rfloor>"

text \<open>\<open>getRoom\<close>: look the room up, creating it with a fresh code when the name is unknown.
  Returns the updated registry and the room.\<close>

definition getRoom :: "(string \<rightharpoonup> Room) \<Rightarrow> string \<Rightarrow> real \<Rightarrow> (string \<rightharpoonup> Room) \<times> Room" where
  "getRoom rs rid rnd =
     (case rs rid of
        None \<Rightarrow>
          (let room = \<lparr>sender = None, receivers = [], code = generateRoomCode rnd\<rparr>
           in (rs(rid \<mapsto> room), room))
      | Some room \<Rightarrow> (rs, room))"

section \<open>The handlers\<close>

text \<open>\<open>wss.on("connection")\<close>: \<open>socketMeta.set(ws, { role: null })\<close>.\<close>

definition on_connection :: "Hub \<Rightarrow> ws \<Rightarrow> Hub" where
  "on_connection h ws =
     h\<lparr>socketMeta := (socketMeta h)(ws \<mapsto> \<lparr>role = None, peerId = None, roomName = None\<rparr>)\<rparr>"

text \<open>The demotion block of the sender branch (lines 203-212): runs when the room has a
  sender other than \<open>ws\<close>.\<close>

definition demote ::
  "(ws \<rightharpoonup> SocketMeta) \<Rightarrow> Room \<Rightarrow> ws \<Rightarrow> error + ((ws \<rightharpoonup> SocketMeta) \<times> Room \<times> sent list)" where
  "demote metas room old =
     (case metas old of
        None \<Rightarrow> Inl TypeError
      | Some oldMeta \<Rightarrow>
          Inr (metas(old \<mapsto> oldMeta\<lparr>role := Some ''receiver''\<rparr>),
               room\<lparr>receivers := set_add old (receivers room)\<rparr>,
               [(old, RoleChanged ''receiver'')]))"

text \<open>The branch \<open>msg.role === "sender"\<close> (lines 202-220) followed by the \<open>joined\<close> reply of
  line 232. \<open>rooms1\<close> and \<open>metas1\<close> are the tables after \<open>getRoom\<close> and after the two
  assignments to \<open>meta\<close>.\<close>

definition join_sender ::
  "(string \<rightharpoonup> Room) \<Rightarrow> (ws \<rightharpoonup> SocketMeta) \<Rightarrow> ws \<Rightarrow> string \<Rightarrow> Room \<Rightarrow> string
     \<Rightarrow> error + (Hub \<times> sent list)" where
  "join_sender rooms1 metas1 ws rid room rl =
     (case (case sender room of
              None \<Rightarrow> Inr (metas1, room, [])
            | Some old \<Rightarrow> if old \<noteq> ws then demote metas1 room old else Inr (metas1, room, [])) of
        Inl e \<Rightarrow> Inl e
      | Inr (metas2, room2, out1) \<Rightarrow>
          (let room3 = room2\<lparr>sender := Some ws\<rparr>
           in Inr (\<lparr>rooms = rooms1(rid \<mapsto> room3), socketMeta = metas2\<rparr>,
                   out1 @ [(ws, RoomCode (code room3))]
                     @ map (\<lambda>r. (r, SenderReady)) (receivers room3)
                     @ [(ws, Joined rl)])))"

text \<open>The \<open>else\<close> branch (lines 221-230) followed by the \<open>joined\<close> reply of line 232.\<close>

definition join_receiver ::
  "(string \<rightharpoonup> Room) \<Rightarrow> (ws \<rightharpoonup> SocketMeta) \<Rightarrow> ws \<Rightarrow> string \<Rightarrow> Room \<Rightarrow> string
     \<Rightarrow> Hub \<times> sent list" where
  "join_receiver rooms1 metas1 ws rid room rl =
     (let room2 = room\<lparr>receivers := set_add ws (receivers room)\<rparr>
      in (\<lparr>rooms = rooms1(rid \<mapsto> room2), socketMeta = metas1\<rparr>,
          (if sender room2 \<noteq> None then [(ws, SenderReady)] else []) @ [(ws, Joined rl)]))"

text \<open>The \<open>type === "join"\<close> block (lines 183-234). \<open>rnd\<close> is what \<open>Math.random()\<close> returns
  if \<open>getRoom\<close> has to create the room.\<close>

definition join :: "Hub \<Rightarrow> ws \<Rightarrow> SignalMessage \<Rightarrow> real \<Rightarrow> error + (Hub \<times> sent list)" where
  "join h ws msg rnd =
     (if \<not> truthy (msg_room msg) \<or> \<not> truthy (msg_role msg) then Inr (h, [])
      else
        (case (msg_room msg, msg_role msg) of
           (Some rid, Some rl) \<Rightarrow>
             (let (rooms1, room) = getRoom (rooms h) rid rnd
              in if rl = ''receiver'' \<and> msg_code msg \<noteq> Some (code room) then
                   Inr (h\<lparr>rooms := rooms1\<rparr>,
                        [(ws, JoinDenied (if truthy (msg_code msg) then ''Invalid room code''
                                          else ''Room code required''))])
                 else
                   (case socketMeta h ws of
                      None \<Rightarrow> Inl TypeError
                    | Some meta \<Rightarrow>
                        (let metas1 = (socketMeta h)(ws \<mapsto> meta\<lparr>roomName := Some rid, role := Some rl\<rparr>)
                         in if rl = ''sender'' then join_sender rooms1 metas1 ws rid room rl
                            else Inr (join_receiver rooms1 metas1 ws rid room rl))))
         | _ \<Rightarrow> Inr (h, [])))"

text \<open>The unicast loop (lines 244-249): the first receiver, in insertion order, whose
  registered \<open>peerId\<close> is \<open>msg.to\<close> gets the message, and the loop breaks.\<close>

fun relay_to :: "(ws \<rightharpoonup> SocketMeta) \<Rightarrow> ws list \<Rightarrow> string \<Rightarrow> reply \<Rightarrow> error + sent list" where
  "relay_to metas [] t fwd = Inr []"
| "relay_to metas (r # rs) t fwd =
     (case metas r of
        None \<Rightarrow> Inl TypeError
      | Some m \<Rightarrow> if peerId m = Some t then Inr [(r, fwd)] else relay_to metas rs t fwd)"

text \<open>The relay block (lines 237-263). \<open>isOpen r\<close> is \<open>r.readyState === WebSocket.OPEN\<close>.\<close>

definition relay ::
  "(ws \<Rightarrow> bool) \<Rightarrow> Hub \<Rightarrow> ws \<Rightarrow> SignalMessage \<Rightarrow> error + (Hub \<times> sent list)" where
  "relay isOpen h ws msg =
     (case socketMeta h ws of
        None \<Rightarrow> Inl TypeError
      | Some meta \<Rightarrow>
          if \<not> truthy (roomName meta) then Inr (h, [])
          else
            (case rooms h (the (roomName meta)) of
               None \<Rightarrow> Inr (h, [])
             | Some room \<Rightarrow>
                 (let fwd = Forwarded (msg\<lparr>msg_from := peerId meta\<rparr>)
                  in if role meta = Some ''sender'' then
                       (if truthy (msg_to msg) then
                          (case relay_to (socketMeta h) (receivers room) (the (msg_to msg)) fwd of
                             Inl e \<Rightarrow> Inl e
                           | Inr out \<Rightarrow> Inr (h, out))
                        else Inr (h, map (\<lambda>r. (r, fwd)) (filter isOpen (receivers room))))
                     else
                       (case sender room of
                          None \<Rightarrow> Inr (h, [])
                        | Some s \<Rightarrow> if isOpen s then Inr (h, [(s, fwd)]) else Inr (h, [])))))"

text \<open>\<open>ws.on("message")\<close> after \<open>JSON.parse\<close> (lines 173-263).\<close>

definition on_message ::
  "(ws \<Rightarrow> bool) \<Rightarrow> Hub \<Rightarrow> ws \<Rightarrow> SignalMessage \<Rightarrow> real \<Rightarrow> error + (Hub \<times> sent list)" where
  "on_message isOpen h ws msg rnd =
     (if msg_type msg = ''register-id'' then
        (case socketMeta h ws of
           None \<Rightarrow> Inl TypeError
         | Some meta \<Rightarrow>
             Inr (h\<lparr>socketMeta := (socketMeta h)(ws \<mapsto> meta\<lparr>peerId := msg_peerId msg\<rparr>)\<rparr>, []))
      else if msg_type msg = ''join'' then join h ws msg rnd
      else if msg_type msg = ''offer'' \<or> msg_type msg = ''answer''
                \<or> msg_type msg = ''ice-candidate'' then relay isOpen h ws msg
      else Inr (h, []))"

text \<open>The two branches of the close handler (lines 275-294) on the session's room.\<close>

definition leave :: "(ws \<Rightarrow> bool) \<Rightarrow> SocketMeta \<Rightarrow> ws \<Rightarrow> Room \<Rightarrow> Room \<times> sent list" where
  "leave isOpen meta ws room =
     (if role meta = Some ''sender'' \<and> sender room = Some ws then
        (room\<lparr>sender := None\<rparr>, map (\<lambda>r. (r, SenderLeft)) (filter isOpen (receivers room)))
      else
        (room\<lparr>receivers := set_delete ws (receivers room)\<rparr>,
         (case sender room of
            None \<Rightarrow> []
          | Some s \<Rightarrow> if isOpen s then [(s, ReceiverLeft (peerId meta))] else [])))"

text \<open>\<open>ws.on("close")\<close> (lines 266-300), with the room cleanup of lines 296-299.\<close>

definition on_close :: "(ws \<Rightarrow> bool) \<Rightarrow> Hub \<Rightarrow> ws \<Rightarrow> error + (Hub \<times> sent list)" where
  "on_close isOpen h ws =
     (case socketMeta h ws of
        None \<Rightarrow> Inl TypeError
      | Some meta \<Rightarrow>
          (let metas1 = (socketMeta h)(ws := None)
           in if \<not> truthy (roomName meta) then Inr (h\<lparr>socketMeta := metas1\<rparr>, [])
              else
                (case rooms h (the (roomName meta)) of
                   None \<Rightarrow> Inr (h\<lparr>socketMeta := metas1\<rparr>, [])
                 | Some room \<Rightarrow>
                     (let (room1, out) = leave isOpen meta ws room
                      in Inr (\<lparr>rooms =
                                 (if sender room1 = None \<and> receivers room1 = []
                                  then (rooms h)(the (roomName meta) := None)
                                  else (rooms h)(the (roomName meta) \<mapsto> room1)),
                               socketMeta = metas1\<rparr>,
                              out)))))"

section \<open>The hub as a transition system\<close>

text \<open>The events the server reacts to. A message event carries the parsed message and the
  value \<open>Math.random()\<close> would return during its handling.\<close>

datatype event = Connection ws | Message ws SignalMessage real | Close ws

fun step :: "(ws \<Rightarrow> bool) \<Rightarrow> Hub \<Rightarrow> event \<Rightarrow> error + (Hub \<times> sent list)" where
  "step isOpen h (Connection ws) = Inr (on_connection h ws, [])"
| "step isOpen h (Message ws msg rnd) = on_message isOpen h ws msg rnd"
| "step isOpen h (Close ws) = on_close isOpen h ws"

text \<open>\<open>new Map()\<close> twice: the hub at startup.\<close>

definition empty_hub :: Hub where
  "empty_hub = \<lparr>rooms = Map.empty, socketMeta = Map.empty\<rparr>"

text \<open>
  What the runtime guarantees about the events: a connection event brings a connection that
  is not live, message and close events come from live connections, and \<open>Math.random()\<close>
  lies in \<open>[0, 1)\<close>. \<open>double_draw\<close> adds that the value \<open>Math.random()\<close> returns is a double.
\<close>

fun enabled :: "Hub \<Rightarrow> event \<Rightarrow> bool" where
  "enabled h (Connection ws) = (socketMeta h ws = None)"
| "enabled h (Message ws msg rnd) = (socketMeta h ws \<noteq> None \<and> 0 \<le> rnd \<and> rnd < 1)"
| "enabled h (Close ws) = (socketMeta h ws \<noteq> None)"

fun double_draw :: "event \<Rightarrow> bool" where
  "double_draw (Message ws msg rnd) = is_double rnd"
| "double_draw (Connection ws) = True"
| "double_draw (Close ws) = True"

text \<open>The discipline "each session joins at most once": a join message comes only from a
  session that has no room recorded.\<close>

fun first_join :: "Hub \<Rightarrow> event \<Rightarrow> bool" where
  "first_join h (Message ws msg rnd) =
     (msg_type msg = ''join'' \<longrightarrow>
        (case socketMeta h ws of None \<Rightarrow> False | Some meta \<Rightarrow> roomName meta = None))"
| "first_join h (Connection ws) = True"
| "first_join h (Close ws) = True"

text \<open>The discipline "a join request names the role sender or receiver" (or no role, and is
  then ignored).\<close>

fun join_role_ok :: "event \<Rightarrow> bool" where
  "join_role_ok (Message ws msg rnd) =
     (msg_type msg = ''join'' \<longrightarrow>
        msg_role msg = Some ''sender'' \<or> msg_role msg = Some ''receiver'' \<or> \<not> truthy (msg_role msg))"
| "join_role_ok (Connection ws) = True"
| "join_role_ok (Close ws) = True"

inductive reachable :: "Hub \<Rightarrow> bool" where
  reachable_init: "reachable empty_hub"
| reachable_step:
    "reachable h \<Longrightarrow> enabled h e \<Longrightarrow> double_draw e \<Longrightarrow> step isOpen h e = Inr (h', out)
       \<Longrightarrow> reachable h'"

inductive reachable_once :: "Hub \<Rightarrow> bool" where
  once_init: "reachable_once empty_hub"
| once_step:
    "reachable_once h \<Longrightarrow> enabled h e \<Longrightarrow> first_join h e
       \<Longrightarrow> step isOpen h e = Inr (h', out) \<Longrightarrow> reachable_once h'"

inductive reachable_roles :: "Hub \<Rightarrow> bool" where
  roles_init: "reachable_roles empty_hub"
| roles_step:
    "reachable_roles h \<Longrightarrow> enabled h e \<Longrightarrow> first_join h e \<Longrightarrow> join_role_ok e
       \<Longrightarrow> step isOpen h e = Inr (h', out) \<Longrightarrow> reachable_roles h'"

text \<open>Running the hub on a list of events, each checked against what the runtime
  guarantees; \<open>run_once\<close> also checks the join-at-most-once discipline, and \<open>run_roles\<close> the
  roles of the join requests as well.\<close>

fun run :: "(ws \<Rightarrow> bool) \<Rightarrow> Hub \<Rightarrow> event list \<Rightarrow> Hub option" where
  "run isOpen h [] = Some h"
| "run isOpen h (e # es) =
     (if enabled h e \<and> double_draw e then
        (case step isOpen h e of Inl err \<Rightarrow> None | Inr (h', out) \<Rightarrow> run isOpen h' es)
      else None)"

fun run_once :: "(ws \<Rightarrow> bool) \<Rightarrow> Hub \<Rightarrow> event list \<Rightarrow> Hub option" where
  "run_once isOpen h [] = Some h"
| "run_once isOpen h (e # es) =
     (if enabled h e \<and> first_join h e then
        (case step isOpen h e of Inl err \<Rightarrow> None | Inr (h', out) \<Rightarrow> run_once isOpen h' es)
      else None)"

fun run_roles :: "(ws \<Rightarrow> bool) \<Rightarrow> Hub \<Rightarrow> event list \<Rightarrow> Hub option" where
  "run_roles isOpen h [] = Some h"
| "run_roles isOpen h (e # es) =
     (if enabled h e \<and> first_join h e \<and> join_role_ok e then
        (case step isOpen h e of Inl err \<Rightarrow> None | Inr (h', out) \<Rightarrow> run_roles isOpen h' es)
      else None)"

section \<open>Vocabulary of the properties\<close>

text \<open>What one connection receives from a handler run, in order.\<close>

definition replies_to :: "ws \<Rightarrow> error + (Hub \<times> sent list) \<Rightarrow> reply list" where
  "replies_to ws res =
     (case res of Inl e \<Rightarrow> [] | Inr (h, out) \<Rightarrow> map snd (filter (\<lambda>(t, m). t = ws) out))"

text \<open>Everything a handler run sends, in order (nothing when it throws).\<close>

definition sent_by :: "error + (Hub \<times> sent list) \<Rightarrow> sent list" where
  "sent_by res = (case res of Inl e \<Rightarrow> [] | Inr (h, out) \<Rightarrow> out)"


text \<open>A string of exactly four decimal digits that renders an integer in 1000..9999.\<close>

definition four_digit_code :: "string \<Rightarrow> bool" where
  "four_digit_code s =
     (length s = 4 \<and> (\<forall>c\<in>set s. c \<in> set ''0123456789'') \<and> (\<exists>n\<in>{1000..9999}. s = toString n))"

text \<open>A join message \<open>{type: "join", room, role, code}\<close> and a negotiation message
  \<open>{type, to, sdp}\<close>, for concrete runs.\<close>

definition join_msg :: "string \<Rightarrow> string \<Rightarrow> string option \<Rightarrow> SignalMessage" where
  "join_msg rid rl c =
     \<lparr>msg_type = ''join'', msg_room = Some rid, msg_role = Some rl, msg_code = c,
      msg_to = None, msg_from = None, msg_peerId = None, msg_rest = []\<rparr>"

definition signal_msg :: "string \<Rightarrow> string option \<Rightarrow> SignalMessage" where
  "signal_msg ty t =
     \<lparr>msg_type = ty, msg_room = None, msg_role = None, msg_code = None,
      msg_to = t, msg_from = None, msg_peerId = None, msg_rest = [(''sdp'', ''v=0'')]\<rparr>"

definition register_msg :: "string \<Rightarrow> SignalMessage" where
  "register_msg p =
     \<lparr>msg_type = ''register-id'', msg_room = None, msg_role = None, msg_code = None,
      msg_to = None, msg_from = None, msg_peerId = Some p, msg_rest = []\<rparr>"

text \<open>
  The agreement between the two tables. Every member of a room is a live session that
  records this room's name, the sender with role \<open>sender\<close> and outside the receivers, a
  receiver with another role; and every session that records a room name is a member of
  that room, as sender exactly when its role is \<open>sender\<close>.
\<close>

definition room_ok :: "Hub \<Rightarrow> string \<Rightarrow> Room \<Rightarrow> bool" where
  "room_ok h rn room =
     (rn \<noteq> [] \<and>
      (\<forall>s. sender room = Some s \<longrightarrow>
         s \<notin> set (receivers room) \<and>
         (\<exists>m. socketMeta h s = Some m \<and> roomName m = Some rn \<and> role m = Some ''sender'')) \<and>
      (\<forall>r\<in>set (receivers room).
         \<exists>m. socketMeta h r = Some m \<and> roomName m = Some rn \<and> role m \<noteq> Some ''sender''))"

definition session_ok :: "Hub \<Rightarrow> ws \<Rightarrow> SocketMeta \<Rightarrow> bool" where
  "session_ok h s m =
     (\<forall>rn. roomName m = Some rn \<longrightarrow>
        rn \<noteq> [] \<and>
        (\<exists>room. rooms h rn = Some room \<and>
           (if role m = Some ''sender'' then sender room = Some s else s \<in> set (receivers room))))"

definition hub_inv :: "Hub \<Rightarrow> bool" where
  "hub_inv h =
     ((\<forall>rn room. rooms h rn = Some room \<longrightarrow> room_ok h rn room) \<and>
      (\<forall>s m. socketMeta h s = Some m \<longrightarrow> session_ok h s m))"

text \<open>
  The agreement of the two tables in the words of the specification: \<open>room.sender\<close> is the
  session iff the session's role is \<open>sender\<close> and its \<open>roomName\<close> is the room's name, and the
  session is in \<open>room.receivers\<close> iff its role is \<open>receiver\<close> and its \<open>roomName\<close> is the room's
  name.
\<close>

definition membership_agrees :: "Hub \<Rightarrow> bool" where
  "membership_agrees h =
     (\<forall>s m rn room. socketMeta h s = Some m \<longrightarrow> rooms h rn = Some room \<longrightarrow>
        (sender room = Some s \<longleftrightarrow> role m = Some ''sender'' \<and> roomName m = Some rn) \<and>
        (s \<in> set (receivers room) \<longleftrightarrow> role m = Some ''receiver'' \<and> roomName m = Some rn))"

text \<open>Every session that records a room has the role \<open>sender\<close> or \<open>receiver\<close>.\<close>

definition roles_ok :: "Hub \<Rightarrow> bool" where
  "roles_ok h =
     (\<forall>s m. socketMeta h s = Some m \<longrightarrow> roomName m \<noteq> None \<longrightarrow>
        role m = Some ''sender'' \<or> role m = Some ''receiver'')"

text \<open>
  A concrete hub for evaluating the handlers: room \<open>home\<close> with code \<open>5500\<close>, sender \<open>0\<close>
  (peer \<open>a\<close>), receivers \<open>1\<close> (peer \<open>b\<close>) and \<open>2\<close> (peer \<open>c\<close>), and a connection \<open>3\<close>
  (peer \<open>d\<close>) that has not joined. \<open>example_events\<close> is a run that builds it.
\<close>

definition example_room :: Room where
  "example_room = \<lparr>sender = Some 0, receivers = [1, 2], code = ''5500''\<rparr>"

definition example_hub :: Hub where
  "example_hub =
     \<lparr>rooms = [''home'' \<mapsto> example_room],
      socketMeta =
        [0 \<mapsto> \<lparr>role = Some ''sender'', peerId = Some ''a'', roomName = Some ''home''\<rparr>,
         1 \<mapsto> \<lparr>role = Some ''receiver'', peerId = Some ''b'', roomName = Some ''home''\<rparr>,
         2 \<mapsto> \<lparr>role = Some ''receiver'', peerId = Some ''c'', roomName = Some ''home''\<rparr>,
         3 \<mapsto> \<lparr>role = None, peerId = Some ''d'', roomName = None\<rparr>]\<rparr>"

definition example_events :: "event list" where
  "example_events =
     [Connection 0, Message 0 (register_msg ''a'') (1 / 2),
      Message 0 (join_msg ''home'' ''sender'' None) (1 / 2),
      Connection 1, Message 1 (register_msg ''b'') (1 / 2),
      Message 1 (join_msg ''home'' ''receiver'' (Some ''5500'')) (1 / 2),
      Connection 2, Message 2 (register_msg ''c'') (1 / 2),
      Message 2 (join_msg ''home'' ''receiver'' (Some ''5500'')) (1 / 2),
      Connection 3, Message 3 (register_msg ''d'') (1 / 2)]"

text \<open>A short run in which a session joins two rooms as sender.\<close>

definition double_join_events :: "event list" where
  "double_join_events =
     [Connection 0, Message 0 (join_msg ''x'' ''sender'' None) (1 / 2),
      Message 0 (join_msg ''y'' ''sender'' None) (1 / 2)]"

definition double_join_hub :: Hub where
  "double_join_hub =
     \<lparr>rooms = [''x'' \<mapsto> \<lparr>sender = Some 0, receivers = [], code = ''5500''\<rparr>,
               ''y'' \<mapsto> \<lparr>sender = Some 0, receivers = [], code = ''5500''\<rparr>],
      socketMeta = [0 \<mapsto> \<lparr>role = Some ''sender'', peerId = None, roomName = Some ''y''\<rparr>]\<rparr>"

section \<open>Evaluation\<close>

lemma doublings_unfold:
  "doublings n x = (if n = 0 then 0 else if 1 \<le> x then 0 else Suc (doublings (n - 1) (2 * x)))"
  by (cases n) auto

lemmas double_eval = round_double_def ulp_def round_even_def halvings.simps doublings_unfold

lemma is_double_half: "is_double (1 / 2)"
  by (simp add: is_double_def double_eval)

lemma generateRoomCode_half: "generateRoomCode (1 / 2) = ''5500''"
proof -
  have p: "round_double (1 / 2 * 9000) = 4500" by (simp add: double_eval)
  have s: "\<lfloor>round_double (1000 + 4500)\<rfloor> = 5500" by (simp add: double_eval)
  have "generateRoomCode (1 / 2) = toString 5500"
    by (simp only: generateRoomCode_def p s)
  also have "toString 5500 = ''5500''"
    by (simp add: toString_def toString_nat.simps digit_char_def)
  finally show ?thesis .
qed

text \<open>The rounding matters: for this draw the exact value of \<open>1000 + rnd * 9000\<close> lies just
  below 1043, and the doubles give 1043.\<close>

lemma round_even_of_int: "round_even (of_int k) = k"
  by (simp add: round_even_def)

lemma generateRoomCode_rounds:
  "is_double (21517198219659 / 4503599627370496)"
  "\<lfloor>1000 + 21517198219659 / 4503599627370496 * (9000::real)\<rfloor> = 1042"
  "generateRoomCode (21517198219659 / 4503599627370496) = ''1043''"
proof -
  let ?r = "21517198219659 / 4503599627370496 :: real"
  have d: "doublings 1022 ?r = 8" by (simp add: doublings_unfold)
  have u: "ulp ?r = 1 / 2 ^ 60" by (simp add: ulp_def d)
  have "?r / ulp ?r = of_int 5508402744232704" by (simp add: u)
  then have "round_even (?r / ulp ?r) = 5508402744232704" by (simp only: round_even_of_int)
  then show "is_double ?r" by (simp add: is_double_def round_double_def u)
  show "\<lfloor>1000 + ?r * (9000::real)\<rfloor> = 1042"
    by simp
  have p: "round_double (?r * 9000) = 6051711999279094 / 140737488355328"
    by (simp add: double_eval)
  have s: "\<lfloor>round_double (1000 + 6051711999279094 / 140737488355328)\<rfloor> = 1043"
    by (simp add: double_eval)
  have "generateRoomCode ?r = toString 1043"
    by (simp only: generateRoomCode_def p s)
  also have "toString 1043 = ''1043''"
    by (simp add: toString_def toString_nat.simps digit_char_def)
  finally show "generateRoomCode ?r = ''1043''" .
qed

lemmas eval_defs =
  on_message_def join_def join_sender_def join_receiver_def demote_def getRoom_def relay_def
  on_close_def leave_def on_connection_def truthy_def set_add_def set_delete_def
  join_msg_def signal_msg_def register_msg_def empty_hub_def Let_def generateRoomCode_half
  is_double_half

lemma example_run: "run_once (\<lambda>_. True) empty_hub example_events = Some example_hub"
  by (simp add: example_events_def example_hub_def example_room_def eval_defs)

lemma example_run_roles: "run_roles (\<lambda>_. True) empty_hub example_events = Some example_hub"
  by (simp add: example_events_def example_hub_def example_room_def eval_defs)

lemma example_run_plain: "run (\<lambda>_. True) empty_hub example_events = Some example_hub"
  by (simp add: example_events_def example_hub_def example_room_def eval_defs)

section \<open>A denied join into a registered room\<close>

text \<open>A receiver join with a missing or wrong code for a room that is registered is
  answered with \<open>join-denied\<close> and changes nothing.\<close>

lemma denied_join_registered_room:
  assumes "msg_type msg = ''join''" and "msg_room msg = Some rid" and "rid \<noteq> []"
    and "msg_role msg = Some ''receiver''"
    and "rooms h rid = Some room" and "msg_code msg \<noteq> Some (code room)"
  shows "on_message isOpen h ws msg rnd =
           Inr (h, [(ws, JoinDenied (if msg_code msg = None \<or> msg_code msg = Some []
                                     then ''Room code required'' else ''Invalid room code''))])"
  using assms
  by (auto simp: on_message_def join_def truthy_def getRoom_def split: option.splits)

section \<open>The unicast loop as a search\<close>


section \<open>Runs reach reachable hubs\<close>

lemma run_reachable: "reachable h \<Longrightarrow> run isOpen h es = Some h' \<Longrightarrow> reachable h'"
proof (induction es arbitrary: h)
  case Nil
  then show ?case by simp
next
  case (Cons e es)
  from Cons.prems(2) obtain h1 out where en: "enabled h e" "double_draw e"
    and st: "step isOpen h e = Inr (h1, out)"
    and rest: "run isOpen h1 es = Some h'"
    by (auto split: if_splits sum.splits)
  have "reachable h1" by (rule reachable_step[OF Cons.prems(1) en st])
  then show ?case using rest by (rule Cons.IH)
qed

lemma run_once_reachable: "reachable_once h \<Longrightarrow> run_once isOpen h es = Some h' \<Longrightarrow> reachable_once h'"
proof (induction es arbitrary: h)
  case Nil
  then show ?case by simp
next
  case (Cons e es)
  from Cons.prems(2) obtain h1 out where en: "enabled h e" "first_join h e"
    and st: "step isOpen h e = Inr (h1, out)"
    and rest: "run_once isOpen h1 es = Some h'"
    by (auto split: if_splits sum.splits)
  have "reachable_once h1" by (rule once_step[OF Cons.prems(1) en st])
  then show ?case using rest by (rule Cons.IH)
qed

lemma run_roles_reachable:
  "reachable_roles h \<Longrightarrow> run_roles isOpen h es = Some h' \<Longrightarrow> reachable_roles h'"
proof (induction es arbitrary: h)
  case Nil
  then show ?case by simp
next
  case (Cons e es)
  from Cons.prems(2) obtain h1 out where en: "enabled h e" "first_join h e" "join_role_ok e"
    and st: "step isOpen h e = Inr (h1, out)"
    and rest: "run_roles isOpen h1 es = Some h'"
    by (auto split: if_splits sum.splits)
  have "reachable_roles h1" by (rule roles_step[OF Cons.prems(1) en st])
  then show ?case using rest by (rule Cons.IH)
qed

lemma reachable_roles_once: "reachable_roles h \<Longrightarrow> reachable_once h"
  by (induction rule: reachable_roles.induct) (auto intro: reachable_once.intros)

lemma example_reachable: "reachable example_hub"
  by (rule run_reachable[OF reachable_init example_run_plain])

lemma example_reachable_roles: "reachable_roles example_hub"
  by (rule run_roles_reachable[OF roles_init example_run_roles])

lemma example_reachable_once: "reachable_once example_hub"
  by (rule run_once_reachable[OF once_init example_run])

section \<open>Access codes: generation and preservation\<close>

lemma digit_char_in: "n < 10 \<Longrightarrow> digit_char n \<in> set ''0123456789''"
proof -
  assume "n < 10"
  then have "n \<in> {0,1,2,3,4,5,6,7,8,9}" by auto
  then show ?thesis by (auto simp: digit_char_def)
qed

lemma toString_nat_four:
  assumes "1000 \<le> n" "n \<le> 9999"
  shows "toString_nat n =
           [digit_char (n div 10 div 10 div 10), digit_char (n div 10 div 10 mod 10),
            digit_char (n div 10 mod 10), digit_char (n mod 10)]"
proof -
  have a: "\<not> n < 10" "\<not> n div 10 < 10" "\<not> n div 10 div 10 < 10" "n div 10 div 10 div 10 < 10"
    using assms by auto
  show ?thesis
    apply (subst toString_nat.simps, simp only: a if_False)
    apply (subst toString_nat.simps, simp only: a if_False)
    apply (subst toString_nat.simps, simp only: a if_False)
    apply (subst toString_nat.simps, simp only: a if_True)
    apply (simp only: append.simps)
    done
qed

lemma toString_four:
  assumes "1000 \<le> i" "i \<le> 9999"
  shows "four_digit_code (toString i)"
proof -
  have n: "1000 \<le> nat i" "nat i \<le> 9999" using assms by auto
  have ts: "toString i = toString_nat (nat i)" using assms by (simp add: toString_def)
  have d: "nat i div 10 div 10 div 10 < 10" "nat i div 10 div 10 mod 10 < 10"
    "nat i div 10 mod 10 < 10" "nat i mod 10 < 10"
    using n by auto
  show ?thesis
    unfolding four_digit_code_def
  proof (intro conjI)
    show "length (toString i) = 4" by (simp add: ts toString_nat_four[OF n])
    show "\<forall>c\<in>set (toString i). c \<in> set ''0123456789''"
      unfolding ts toString_nat_four[OF n] using d digit_char_in by auto
    show "\<exists>n\<in>{1000..9999}. toString i = toString n" using assms by auto
  qed
qed

text \<open>The range of the rounded computation, for every double in \<open>[0, 1)\<close>.\<close>

lemma halvings_bounds: "1 \<le> x \<Longrightarrow> 2 ^ halvings x \<le> x \<and> x < 2 * 2 ^ halvings x"
proof (induction x rule: halvings.induct)
  case (1 x)
  show ?case
  proof (cases "x < 2")
    case True
    then have "halvings x = 0" by (simp add: halvings.simps)
    with True "1.prems" show ?thesis by simp
  next
    case False
    then have h: "halvings x = Suc (halvings (x / 2))" by (subst halvings.simps) simp
    from False have "1 \<le> x / 2" by simp
    from "1.IH"[OF False this] show ?thesis unfolding h by simp
  qed
qed

lemma doublings_bound: "0 \<le> x \<Longrightarrow> x < 2 \<Longrightarrow> x * 2 ^ doublings n x < 2"
proof (induction n arbitrary: x)
  case 0
  then show ?case by simp
next
  case (Suc n)
  show ?case
  proof (cases "1 \<le> x")
    case True
    then show ?thesis using Suc.prems by simp
  next
    case False
    then have "0 \<le> 2 * x" "2 * x < 2" using Suc.prems by simp_all
    from Suc.IH[OF this] False show ?thesis by (simp add: mult.assoc mult.commute mult.left_commute)
  qed
qed

lemma ulp_pos: "0 < ulp x"
  by (simp add: ulp_def)

lemma mantissa_less: "0 \<le> x \<Longrightarrow> x / ulp x < 2 ^ 53"
proof (cases "1 \<le> x")
  case True
  from halvings_bounds[OF True] have "x < 2 * 2 ^ halvings x" by simp
  then have "x / 2 ^ halvings x < 2" by (simp add: pos_divide_less_eq)
  then have "x / 2 ^ halvings x * 2 ^ 52 < 2 * 2 ^ 52" by (rule mult_strict_right_mono) simp
  moreover have "x / ulp x = x / 2 ^ halvings x * 2 ^ 52" using True by (simp add: ulp_def)
  ultimately show ?thesis by simp
next
  case False
  assume "0 \<le> x"
  with False have "x * 2 ^ doublings 1022 x < 2" by (intro doublings_bound) simp_all
  then have "x * 2 ^ doublings 1022 x * 2 ^ 52 < 2 * 2 ^ 52" by (rule mult_strict_right_mono) simp
  moreover have "x / ulp x = x * 2 ^ doublings 1022 x * 2 ^ 52" using False by (simp add: ulp_def)
  ultimately show ?thesis by simp
qed

lemma round_even_ge: "of_int k \<le> q \<Longrightarrow> k \<le> round_even q"
proof -
  assume "of_int k \<le> q"
  then have "k \<le> \<lfloor>q\<rfloor>" by (simp add: le_floor_iff)
  then show ?thesis by (auto simp: round_even_def Let_def)
qed

lemma round_even_le: "q \<le> of_int k \<Longrightarrow> round_even q \<le> k"
proof (cases "q = of_int k")
  case True
  then show ?thesis by (simp add: round_even_def)
next
  case False
  assume "q \<le> of_int k"
  with False have "q < of_int k" by simp
  then have "\<lfloor>q\<rfloor> < k" by (simp add: floor_less_iff)
  then show ?thesis by (auto simp: round_even_def Let_def)
qed

lemma round_even_below_half: "q < of_int n - 1 / 2 \<Longrightarrow> round_even q \<le> n - 1"
proof -
  assume a: "q < of_int n - 1 / 2"
  then have "q < of_int n" by simp
  then have f: "\<lfloor>q\<rfloor> \<le> n - 1" by (simp add: floor_less_iff)
  show ?thesis
  proof (cases "\<lfloor>q\<rfloor> = n - 1")
    case True
    then have "q - of_int \<lfloor>q\<rfloor> < 1 / 2" using a by simp
    then show ?thesis using True by (simp add: round_even_def Let_def)
  next
    case False
    with f have "\<lfloor>q\<rfloor> + 1 \<le> n - 1" by simp
    then show ?thesis by (auto simp: round_even_def Let_def)
  qed
qed

lemma round_double_nonneg: "0 \<le> x \<Longrightarrow> 0 \<le> round_double x"
proof -
  assume x: "0 \<le> x"
  then have "of_int 0 \<le> x / ulp x" using ulp_pos[of x] by simp
  then have "0 \<le> round_even (x / ulp x)" by (rule round_even_ge)
  then show ?thesis using x ulp_pos[of x] by (simp add: round_double_def)
qed

lemma ulp_small:
  assumes "0 \<le> x" "x < 2 ^ 13"
  shows "ulp x \<le> 2 ^ 13 / 2 ^ 53"
proof (cases "1 \<le> x")
  case True
  from halvings_bounds[OF True] assms(2) have "(2::real) ^ halvings x < 2 ^ 13" by simp
  then have "halvings x < 13"
    by (simp only: power_strict_increasing_iff[of 2] one_less_numeral_iff semiring_norm)
  then have "halvings x \<le> 12" by simp
  then have "(2::real) ^ halvings x \<le> 2 ^ 12" by (intro power_increasing) simp_all
  then have "(2::real) ^ halvings x / 2 ^ 52 \<le> 2 ^ 12 / 2 ^ 52" by (simp add: divide_right_mono)
  then show ?thesis using True by (simp add: ulp_def)
next
  case False
  have "(1::real) \<le> 2 ^ doublings 1022 x" by simp
  then have "1 / (2 ^ doublings 1022 x * 2 ^ 52) \<le> 1 / (2 ^ 52 :: real)"
    by (intro divide_left_mono) simp_all
  also have "\<dots> \<le> 2 ^ 13 / 2 ^ 53" by simp
  finally have "1 / (2 ^ doublings 1022 x * 2 ^ 52) \<le> (2 ^ 13 / 2 ^ 53 :: real)" .
  moreover have "ulp x = 1 / (2 ^ doublings 1022 x * 2 ^ 52)"
    using False by (simp only: ulp_def if_False)
  ultimately show ?thesis by (simp only:)
qed

lemma round_double_small:
  assumes "0 \<le> x" "x < 2 ^ 13"
  shows "round_double x \<le> 2 ^ 13"
proof -
  have "x / ulp x \<le> of_int (2 ^ 53)" using mantissa_less[OF assms(1)] by simp
  then have "round_even (x / ulp x) \<le> 2 ^ 53" by (rule round_even_le)
  then have "of_int (round_even (x / ulp x)) \<le> (2 ^ 53 :: real)"
    by (metis of_int_le_iff of_int_numeral of_int_power)
  then have "ulp x * of_int (round_even (x / ulp x)) \<le> ulp x * 2 ^ 53"
    using ulp_pos[of x] by (simp add: mult_left_mono)
  also have "\<dots> \<le> 2 ^ 13 / 2 ^ 53 * 2 ^ 53"
    using ulp_small[OF assms] by (intro mult_right_mono) simp_all
  finally show ?thesis using assms(1) by (simp add: round_double_def)
qed

lemma ulp_binade13:
  assumes "2 ^ 13 \<le> x" "x < 2 ^ 14"
  shows "ulp x = 1 / 2 ^ 39"
proof -
  have one: "1 \<le> x" using assms(1) by simp
  from halvings_bounds[OF one] assms have "(2::real) ^ halvings x < 2 ^ 14" "(2::real) ^ 13 < 2 ^ Suc (halvings x)"
    by simp_all
  then have "halvings x < 14" "13 < Suc (halvings x)"
    by (simp_all only: power_strict_increasing_iff[of 2] one_less_numeral_iff semiring_norm)
  then have "halvings x = 13" by simp
  then show ?thesis using one by (simp add: ulp_def)
qed


lemma round_double_product:
  assumes "0 \<le> r" "r \<le> 1 - 1 / 2 ^ 53"
  shows "round_double (r * 9000) \<le> 9000 - 1 / 2 ^ 39"
proof (cases "r * 9000 < 2 ^ 13")
  case True
  have "round_double (r * 9000) \<le> 2 ^ 13" using assms(1) True by (intro round_double_small) simp_all
  then show ?thesis by simp
next
  case False
  then have lo: "2 ^ 13 \<le> r * 9000" by simp
  have hi: "r * 9000 \<le> 9000 - 9000 / 2 ^ 53" using assms(2) by simp
  then have "r * 9000 < 2 ^ 14" by simp
  from ulp_binade13[OF lo this] have u: "ulp (r * 9000) = 1 / 2 ^ 39" .
  have "r * 9000 / ulp (r * 9000) = r * 9000 * 2 ^ 39" by (simp add: u)
  also have "\<dots> \<le> (9000 - 9000 / 2 ^ 53) * 2 ^ 39" using hi by (intro mult_right_mono) simp_all
  also have "\<dots> < of_int (9000 * 2 ^ 39) - 1 / 2" by simp
  finally have "round_even (r * 9000 / ulp (r * 9000)) \<le> 9000 * 2 ^ 39 - 1"
    by (rule round_even_below_half)
  then have "of_int (round_even (r * 9000 / ulp (r * 9000))) \<le> (of_int (9000 * 2 ^ 39 - 1) :: real)"
    by (simp only: of_int_le_iff)
  then have "ulp (r * 9000) * of_int (round_even (r * 9000 / ulp (r * 9000)))
        \<le> 1 / 2 ^ 39 * of_int (9000 * 2 ^ 39 - 1)"
    unfolding u by (intro mult_left_mono) simp_all
  moreover have "0 \<le> r * 9000" using assms(1) by simp
  ultimately show ?thesis by (simp add: round_double_def)
qed

lemma round_double_sum:
  assumes "1000 \<le> s" "s \<le> 10000 - 1 / 2 ^ 39"
  shows "1000 \<le> round_double s" "round_double s \<le> 10000 - 1 / 2 ^ 39"
proof -
  have nn: "0 \<le> s" "1 \<le> s" "\<not> s < 0" using assms(1) by simp_all
  show "round_double s \<le> 10000 - 1 / 2 ^ 39"
  proof (cases "s < 2 ^ 13")
    case True
    have "round_double s \<le> 2 ^ 13" using nn(1) True by (intro round_double_small)
    then show ?thesis by simp
  next
    case False
    then have lo: "2 ^ 13 \<le> s" by simp
    have "s < 2 ^ 14" using assms(2) by simp
    from ulp_binade13[OF lo this] have u: "ulp s = 1 / 2 ^ 39" .
    have "s / ulp s = s * 2 ^ 39" by (simp add: u)
    also have "\<dots> \<le> (10000 - 1 / 2 ^ 39) * 2 ^ 39" using assms(2) by (intro mult_right_mono) simp_all
    also have "\<dots> = of_int (10000 * 2 ^ 39 - 1)" by simp
    finally have "round_even (s / ulp s) \<le> 10000 * 2 ^ 39 - 1" by (rule round_even_le)
    then have "of_int (round_even (s / ulp s)) \<le> (of_int (10000 * 2 ^ 39 - 1) :: real)"
      by (simp only: of_int_le_iff)
    then have "ulp s * of_int (round_even (s / ulp s)) \<le> 1 / 2 ^ 39 * of_int (10000 * 2 ^ 39 - 1)"
      unfolding u by (intro mult_left_mono) simp_all
    then show ?thesis using nn by (simp add: round_double_def)
  qed
  show "1000 \<le> round_double s"
  proof -
    let ?e = "halvings s"
    from halvings_bounds[OF nn(2)] assms(2) have "(2::real) ^ ?e < 2 ^ 14" by simp
    then have "?e < 14"
      by (simp only: power_strict_increasing_iff[of 2] one_less_numeral_iff semiring_norm)
    then have e: "?e \<le> 52" by simp
    have u: "ulp s = 1 / 2 ^ (52 - ?e)" using nn(2) e by (simp add: ulp_def power_diff)
    have "of_int (1000 * 2 ^ (52 - ?e)) \<le> s * 2 ^ (52 - ?e)"
      using assms(1) by simp
    also have "\<dots> = s / ulp s" by (simp add: u)
    finally have "1000 * 2 ^ (52 - ?e) \<le> round_even (s / ulp s)" by (rule round_even_ge)
    then have "(of_int (1000 * 2 ^ (52 - ?e)) :: real) \<le> of_int (round_even (s / ulp s))"
      by (simp only: of_int_le_iff)
    then have "1 / 2 ^ (52 - ?e) * (of_int (1000 * 2 ^ (52 - ?e)) :: real)
        \<le> ulp s * of_int (round_even (s / ulp s))"
      unfolding u by (intro mult_left_mono) simp_all
    then show ?thesis using nn by (simp add: round_double_def)
  qed
qed

lemma double_below_one:
  assumes "is_double r" "0 \<le> r" "r < 1"
  shows "r \<le> 1 - 1 / 2 ^ 53"
proof (cases "r < 1 / 2")
  case True
  then show ?thesis by simp
next
  case False
  then have "doublings 1022 r = 1" using assms(3) by (simp add: doublings_unfold)
  then have u: "ulp r = 1 / 2 ^ 53" using assms(3) by (simp add: ulp_def)
  define m where "m = round_even (r / ulp r)"
  have r: "r = of_int m / 2 ^ 53"
    using assms(1,2) unfolding is_double_def round_double_def m_def u by simp
  then have "of_int m < (2 ^ 53 :: real)" using assms(3) by simp
  then have "of_int m < (of_int (2 ^ 53) :: real)" by simp
  then have "m < 2 ^ 53" by (simp only: of_int_less_iff)
  then have "m \<le> 2 ^ 53 - 1" by simp
  then have "(of_int m :: real) \<le> of_int (2 ^ 53 - 1)" by (simp only: of_int_le_iff)
  then have "of_int m / 2 ^ 53 \<le> (of_int (2 ^ 53 - 1) :: real) / 2 ^ 53"
    by (intro divide_right_mono) simp_all
  then show ?thesis unfolding r by simp
qed

lemma room_code_range:
  assumes "is_double rnd" "0 \<le> rnd" "rnd < 1"
  shows "1000 \<le> \<lfloor>round_double (1000 + round_double (rnd * 9000))\<rfloor>"
    and "\<lfloor>round_double (1000 + round_double (rnd * 9000))\<rfloor> \<le> 9999"
proof -
  let ?p = "round_double (rnd * 9000)"
  have p0: "0 \<le> ?p" using assms(2) by (intro round_double_nonneg) simp
  have p1: "?p \<le> 9000 - 1 / 2 ^ 39"
    by (rule round_double_product[OF assms(2) double_below_one[OF assms]])
  have s: "1000 \<le> 1000 + ?p" "1000 + ?p \<le> 10000 - 1 / 2 ^ 39" using p0 p1 by simp_all
  from round_double_sum(1)[OF s] show "1000 \<le> \<lfloor>round_double (1000 + ?p)\<rfloor>"
    by (simp add: le_floor_iff)
  from round_double_sum(2)[OF s] have "round_double (1000 + ?p) < 10000" by simp
  then have "\<lfloor>round_double (1000 + ?p)\<rfloor> < 10000" by (simp add: floor_less_iff)
  then show "\<lfloor>round_double (1000 + ?p)\<rfloor> \<le> 9999" by simp
qed

lemma generateRoomCode_four:
  assumes "is_double rnd" "0 \<le> rnd" "rnd < 1"
  shows "four_digit_code (generateRoomCode rnd)"
  unfolding generateRoomCode_def
  by (rule toString_four) (rule room_code_range[OF assms])+

lemma getRoom_cases:
  assumes "getRoom rs rid rnd = (rs1, room)"
  shows "(rs rid = Some room \<and> rs1 = rs) \<or>
         (rs rid = None \<and> room = \<lparr>sender = None, receivers = [], code = generateRoomCode rnd\<rparr>
            \<and> rs1 = rs(rid \<mapsto> room))"
  using assms by (auto simp: getRoom_def Let_def split: option.splits)

lemma relay_state: "relay isOpen h ws msg = Inr (h', out) \<Longrightarrow> h' = h"
  by (auto simp: relay_def Let_def split: option.splits if_splits sum.splits)

lemma join_rooms:
  assumes "join h ws msg rnd = Inr (h', out)" and "rooms h' rn = Some room'"
  shows "(case rooms h rn of
            Some room \<Rightarrow> code room' = code room
          | None \<Rightarrow> code room' = generateRoomCode rnd)"
proof (cases "\<not> truthy (msg_room msg) \<or> \<not> truthy (msg_role msg)")
  case True
  with assms show ?thesis by (simp add: join_def)
next
  case False
  then obtain rid rl where f: "msg_room msg = Some rid" "msg_role msg = Some rl"
    by (auto simp: truthy_def split: option.splits)
  obtain rs1 room where g: "getRoom (rooms h) rid rnd = (rs1, room)" by fastforce
  have rs1: "case rooms h k of Some r \<Rightarrow> code r1 = code r | None \<Rightarrow> code r1 = generateRoomCode rnd"
    if "rs1 k = Some r1" for k r1
    using getRoom_cases[OF g] that by (auto split: if_splits)
  have room: "rs1 rid = Some room" using getRoom_cases[OF g] by auto
  have "\<exists>r1. rs1 rn = Some r1 \<and> code room' = code r1"
    using assms False f g room
    by (auto simp: join_def join_sender_def join_receiver_def demote_def Let_def
          split: if_splits option.splits sum.splits)
  then obtain r1 where r1: "rs1 rn = Some r1" "code room' = code r1" by blast
  from rs1[OF r1(1)] r1(2) show ?thesis by (simp split: option.splits)
qed

lemma close_rooms:
  assumes "on_close isOpen h ws = Inr (h', out)" and "rooms h' rn = Some room'"
  shows "\<exists>room. rooms h rn = Some room \<and> code room' = code room"
  using assms
  by (auto simp: on_close_def leave_def Let_def split: option.splits if_splits)

lemma step_rooms:
  assumes "step isOpen h e = Inr (h', out)" and "rooms h' rn = Some room'"
  shows "(case rooms h rn of
            Some room \<Rightarrow> code room' = code room
          | None \<Rightarrow> \<exists>ws msg rnd. e = Message ws msg rnd \<and> code room' = generateRoomCode rnd)"
proof (cases e)
  case (Connection ws)
  with assms show ?thesis by (auto simp: on_connection_def)
next
  case (Close ws)
  with assms close_rooms[of isOpen h ws h' out rn room'] show ?thesis by auto
next
  case (Message ws msg rnd)
  with assms have m: "on_message isOpen h ws msg rnd = Inr (h', out)" by simp
  show ?thesis
  proof (cases "msg_type msg = ''join''")
    case True
    with m have "join h ws msg rnd = Inr (h', out)" by (simp add: on_message_def)
    from join_rooms[OF this assms(2)] Message show ?thesis by (auto split: option.splits)
  next
    case False
    with m have "rooms h' = rooms h"
      by (auto simp: on_message_def dest: relay_state split: if_splits option.splits)
    with assms(2) show ?thesis by simp
  qed
qed

lemma reachable_codes:
  "reachable h \<Longrightarrow> rooms h rn = Some room \<Longrightarrow> four_digit_code (code room)"
proof (induction arbitrary: rn room rule: reachable.induct)
  case reachable_init
  then show ?case by (simp add: empty_hub_def)
next
  case (reachable_step h e isOpen h' out)
  show ?case
  proof (cases "rooms h rn")
    case (Some r)
    with step_rooms[OF reachable_step.hyps(4) reachable_step.prems]
    have "code room = code r" by simp
    with reachable_step.IH[OF Some] show ?thesis by simp
  next
    case None
    with step_rooms[OF reachable_step.hyps(4) reachable_step.prems]
    obtain ws msg rnd where e: "e = Message ws msg rnd" and c: "code room = generateRoomCode rnd" by auto
    from reachable_step.hyps(2,3) e have "is_double rnd" "0 \<le> rnd" "rnd < 1" by auto
    from generateRoomCode_four[OF this] c show ?thesis by simp
  qed
qed

section \<open>The agreement of rooms and sessions is invariant\<close>

lemma inv_empty: "hub_inv empty_hub"
  by (simp add: hub_inv_def empty_hub_def)


lemma inv_roomD:
  assumes "hub_inv h" "rooms h rn = Some room"
  shows "rn \<noteq> []"
    and "sender room = Some s \<Longrightarrow> s \<notin> set (receivers room)"
    and "sender room = Some s \<Longrightarrow> \<exists>m. socketMeta h s = Some m \<and> roomName m = Some rn \<and> role m = Some ''sender''"
    and "r \<in> set (receivers room) \<Longrightarrow> \<exists>m. socketMeta h r = Some m \<and> roomName m = Some rn \<and> role m \<noteq> Some ''sender''"
  using assms unfolding hub_inv_def room_ok_def by blast+

lemma inv_sessionD:
  assumes "hub_inv h" "socketMeta h s = Some m" "roomName m = Some rn"
  shows "rn \<noteq> []"
    and "\<exists>room. rooms h rn = Some room \<and>
           (if role m = Some ''sender'' then sender room = Some s else s \<in> set (receivers room))"
  using assms unfolding hub_inv_def session_ok_def by blast+



lemma hub_invI:
  assumes "\<And>rn room. rooms h rn = Some room \<Longrightarrow> room_ok h rn room"
    and "\<And>s m. socketMeta h s = Some m \<Longrightarrow> session_ok h s m"
  shows "hub_inv h"
  using assms unfolding hub_inv_def by blast

lemma inv_room_ok: "hub_inv h \<Longrightarrow> rooms h rn = Some room \<Longrightarrow> room_ok h rn room"
  unfolding hub_inv_def by blast

lemma inv_session_ok: "hub_inv h \<Longrightarrow> socketMeta h s = Some m \<Longrightarrow> session_ok h s m"
  unfolding hub_inv_def by blast

text \<open>A session that is a member of a room records that room's name.\<close>

lemma member_roomName:
  assumes "room_ok h rn room" "sender room = Some s \<or> s \<in> set (receivers room)"
  shows "\<exists>m. socketMeta h s = Some m \<and> roomName m = Some rn"
  using assms unfolding room_ok_def by blast

lemma not_member:
  assumes "hub_inv h" "rooms h rn = Some room" "socketMeta h ws = None \<or> (\<exists>m. socketMeta h ws = Some m \<and> roomName m = None)"
  shows "sender room \<noteq> Some ws \<and> ws \<notin> set (receivers room)"
proof -
  have ok: "room_ok h rn room" using assms(1,2) by (rule inv_room_ok)
  show ?thesis
  proof (rule ccontr)
    assume "\<not> ?thesis"
    then have "sender room = Some ws \<or> ws \<in> set (receivers room)" by blast
    from member_roomName[OF ok this] assms(3) show False by auto
  qed
qed

text \<open>Room and session conditions only read the entries of the sessions and rooms involved.\<close>

lemma room_ok_cong:
  assumes "room_ok h rn room"
    and "\<And>s m. sender room = Some s \<or> s \<in> set (receivers room) \<Longrightarrow> socketMeta h s = Some m
           \<Longrightarrow> \<exists>m'. socketMeta h' s = Some m' \<and> roomName m' = roomName m \<and> role m' = role m"
  shows "room_ok h' rn room"
  unfolding room_ok_def
proof (intro conjI allI impI ballI)
  show "rn \<noteq> []" using assms(1) unfolding room_ok_def by blast
next
  fix s assume s: "sender room = Some s"
  then show "s \<notin> set (receivers room)" using assms(1) unfolding room_ok_def by blast
  from s assms(1) obtain m where m: "socketMeta h s = Some m" "roomName m = Some rn" "role m = Some ''sender''"
    unfolding room_ok_def by blast
  from assms(2)[of s m] s m(1) obtain m' where "socketMeta h' s = Some m'" "roomName m' = roomName m" "role m' = role m"
    by blast
  with m show "\<exists>m. socketMeta h' s = Some m \<and> roomName m = Some rn \<and> role m = Some ''sender''"
    by simp
next
  fix r assume r: "r \<in> set (receivers room)"
  with assms(1) obtain m where m: "socketMeta h r = Some m" "roomName m = Some rn" "role m \<noteq> Some ''sender''"
    unfolding room_ok_def by blast
  from assms(2)[of r m] r m(1) obtain m' where "socketMeta h' r = Some m'" "roomName m' = roomName m" "role m' = role m"
    by blast
  with m show "\<exists>m. socketMeta h' r = Some m \<and> roomName m = Some rn \<and> role m \<noteq> Some ''sender''"
    by simp
qed

lemma session_ok_mono:
  assumes "session_ok h s m"
    and "roomName m' = roomName m" and "role m' = role m"
    and "\<And>rn room. roomName m = Some rn \<Longrightarrow> rooms h rn = Some room \<Longrightarrow>
           \<exists>room'. rooms h' rn = Some room' \<and>
             (role m = Some ''sender'' \<longrightarrow> sender room = Some s \<longrightarrow> sender room' = Some s) \<and>
             (role m \<noteq> Some ''sender'' \<longrightarrow> s \<in> set (receivers room) \<longrightarrow> s \<in> set (receivers room'))"
  shows "session_ok h' s m'"
  unfolding session_ok_def
proof (intro allI impI conjI)
  fix rn assume rn: "roomName m' = Some rn"
  then have rn': "roomName m = Some rn" using assms(2) by simp
  from assms(1) rn' show "rn \<noteq> []" unfolding session_ok_def by blast
  from assms(1) rn' obtain room where room: "rooms h rn = Some room"
    "if role m = Some ''sender'' then sender room = Some s else s \<in> set (receivers room)"
    unfolding session_ok_def by blast
  from assms(4)[OF rn' room(1)] obtain room' where room': "rooms h' rn = Some room'"
     "role m = Some ''sender'' \<longrightarrow> sender room = Some s \<longrightarrow> sender room' = Some s"
     "role m \<noteq> Some ''sender'' \<longrightarrow> s \<in> set (receivers room) \<longrightarrow> s \<in> set (receivers room')"
    by blast
  show "\<exists>room. rooms h' rn = Some room \<and>
          (if role m' = Some ''sender'' then sender room = Some s else s \<in> set (receivers room))"
    using room(2) room' assms(3) by (cases "role m = Some ''sender''") auto
qed

lemma inv_connection:
  assumes inv: "hub_inv h" and fresh: "socketMeta h ws = None"
  shows "hub_inv (on_connection h ws)"
proof (rule hub_invI)
  fix rn room assume "rooms (on_connection h ws) rn = Some room"
  then have r: "rooms h rn = Some room" by (simp add: on_connection_def)
  have nm: "sender room \<noteq> Some ws \<and> ws \<notin> set (receivers room)"
    using not_member[OF inv r] fresh by blast
  show "room_ok (on_connection h ws) rn room"
    by (rule room_ok_cong[OF inv_room_ok[OF inv r]]) (use nm in \<open>auto simp: on_connection_def\<close>)
next
  fix s m assume a: "socketMeta (on_connection h ws) s = Some m"
  show "session_ok (on_connection h ws) s m"
  proof (cases "s = ws")
    case True
    with a show ?thesis by (auto simp: on_connection_def session_ok_def)
  next
    case False
    with a have m: "socketMeta h s = Some m" by (simp add: on_connection_def)
    show ?thesis
      by (rule session_ok_mono[OF inv_session_ok[OF inv m]]) (auto simp: on_connection_def)
  qed
qed


lemma inv_register:
  assumes inv: "hub_inv h" and live: "socketMeta h ws = Some meta"
  shows "hub_inv (h\<lparr>socketMeta := (socketMeta h)(ws \<mapsto> meta\<lparr>peerId := p\<rparr>)\<rparr>)"
    (is "hub_inv ?h'")
proof (rule hub_invI)
  fix rn room assume "rooms ?h' rn = Some room"
  then have r: "rooms h rn = Some room" by simp
  show "room_ok ?h' rn room"
    by (rule room_ok_cong[OF inv_room_ok[OF inv r]]) (use live in auto)
next
  fix s m assume a: "socketMeta ?h' s = Some m"
  show "session_ok ?h' s m"
  proof (cases "s = ws")
    case True
    with a have m: "m = meta\<lparr>peerId := p\<rparr>" by simp
    show ?thesis unfolding True
      by (rule session_ok_mono[OF inv_session_ok[OF inv live]]) (auto simp: m)
  next
    case False
    with a have m: "socketMeta h s = Some m" by simp
    show ?thesis
      by (rule session_ok_mono[OF inv_session_ok[OF inv m]]) auto
  qed
qed

lemma inv_create:
  assumes inv: "hub_inv h" and "rooms h rid = None" and "rid \<noteq> []"
  shows "hub_inv (h\<lparr>rooms := (rooms h)(rid \<mapsto> \<lparr>sender = None, receivers = [], code = c\<rparr>)\<rparr>)"
    (is "hub_inv ?h'")
proof (rule hub_invI)
  fix rn room assume a: "rooms ?h' rn = Some room"
  show "room_ok ?h' rn room"
  proof (cases "rn = rid")
    case True
    with a assms(3) show ?thesis by (auto simp: room_ok_def)
  next
    case False
    with a have r: "rooms h rn = Some room" by simp
    show ?thesis by (rule room_ok_cong[OF inv_room_ok[OF inv r]]) auto
  qed
next
  fix s m assume a: "socketMeta ?h' s = Some m"
  then have m: "socketMeta h s = Some m" by simp
  show "session_ok ?h' s m"
    by (rule session_ok_mono[OF inv_session_ok[OF inv m]]) (use assms(2) in auto)
qed


lemma inv_add_receiver:
  assumes inv: "hub_inv h" and room: "rooms h rid = Some room"
    and live: "socketMeta h ws = Some meta" and fresh: "roomName meta = None"
    and rl: "rl \<noteq> ''sender''"
  shows "hub_inv \<lparr>rooms = (rooms h)(rid \<mapsto> room\<lparr>receivers := set_add ws (receivers room)\<rparr>),
                  socketMeta = (socketMeta h)(ws \<mapsto> meta\<lparr>roomName := Some rid, role := Some rl\<rparr>)\<rparr>"
    (is "hub_inv ?h'")
proof (rule hub_invI)
  have nm: "sender r \<noteq> Some ws \<and> ws \<notin> set (receivers r)" if "rooms h rn = Some r" for rn r
    using not_member[OF inv that] live fresh by blast
  fix rn r assume a: "rooms ?h' rn = Some r"
  show "room_ok ?h' rn r"
  proof (cases "rn = rid")
    case True
    with a have r: "r = room\<lparr>receivers := set_add ws (receivers room)\<rparr>" by simp
    have ok: "room_ok h rid room" by (rule inv_room_ok[OF inv room])
    show ?thesis unfolding True r room_ok_def
    proof (intro conjI allI impI ballI)
      show "rid \<noteq> []" using ok unfolding room_ok_def by blast
    next
      fix s assume s: "sender (room\<lparr>receivers := set_add ws (receivers room)\<rparr>) = Some s"
      then have s': "sender room = Some s" by simp
      have "s \<noteq> ws" using nm[OF room] s' by blast
      moreover have "s \<notin> set (receivers room)" using ok s' unfolding room_ok_def by blast
      ultimately show "s \<notin> set (receivers (room\<lparr>receivers := set_add ws (receivers room)\<rparr>))"
        by (simp add: set_add_def)
      from ok s' obtain m where "socketMeta h s = Some m \<and> roomName m = Some rid \<and> role m = Some ''sender''"
        unfolding room_ok_def by blast
      with \<open>s \<noteq> ws\<close> show "\<exists>m. socketMeta ?h' s = Some m \<and> roomName m = Some rid \<and> role m = Some ''sender''"
        by simp
    next
      fix x assume "x \<in> set (receivers (room\<lparr>receivers := set_add ws (receivers room)\<rparr>))"
      then have x: "x = ws \<or> x \<in> set (receivers room)" by (auto simp: set_add_def split: if_splits)
      show "\<exists>m. socketMeta ?h' x = Some m \<and> roomName m = Some rid \<and> role m \<noteq> Some ''sender''"
      proof (cases "x = ws")
        case True
        then show ?thesis using rl by simp
      next
        case False
        with x have "x \<in> set (receivers room)" by blast
        with ok obtain m where "socketMeta h x = Some m \<and> roomName m = Some rid \<and> role m \<noteq> Some ''sender''"
          unfolding room_ok_def by blast
        with False show ?thesis by simp
      qed
    qed
  next
    case False
    with a have r: "rooms h rn = Some r" by simp
    show ?thesis
      by (rule room_ok_cong[OF inv_room_ok[OF inv r]]) (use nm[OF r] in auto)
  qed
next
  fix s m assume a: "socketMeta ?h' s = Some m"
  show "session_ok ?h' s m"
  proof (cases "s = ws")
    case True
    with a have "m = meta\<lparr>roomName := Some rid, role := Some rl\<rparr>" by simp
    moreover have "rid \<noteq> []" using inv_room_ok[OF inv room] unfolding room_ok_def by blast
    ultimately show ?thesis using rl unfolding True session_ok_def by (simp add: set_add_def)
  next
    case False
    with a have m: "socketMeta h s = Some m" by simp
    show ?thesis
      by (rule session_ok_mono[OF inv_session_ok[OF inv m]]) (use room in \<open>auto simp: set_add_def\<close>)
  qed
qed

lemma inv_install_sender:
  assumes inv: "hub_inv h" and room: "rooms h rid = Some room"
    and live: "socketMeta h ws = Some meta" and fresh: "roomName meta = None"
    and vacant: "sender room = None"
  shows "hub_inv \<lparr>rooms = (rooms h)(rid \<mapsto> room\<lparr>sender := Some ws\<rparr>),
                  socketMeta = (socketMeta h)(ws \<mapsto> meta\<lparr>roomName := Some rid, role := Some ''sender''\<rparr>)\<rparr>"
    (is "hub_inv ?h'")
proof (rule hub_invI)
  have nm: "sender r \<noteq> Some ws \<and> ws \<notin> set (receivers r)" if "rooms h rn = Some r" for rn r
    using not_member[OF inv that] live fresh by blast
  have ok: "room_ok h rid room" by (rule inv_room_ok[OF inv room])
  fix rn r assume a: "rooms ?h' rn = Some r"
  show "room_ok ?h' rn r"
  proof (cases "rn = rid")
    case True
    with a have r: "r = room\<lparr>sender := Some ws\<rparr>" by simp
    show ?thesis unfolding True r room_ok_def
    proof (intro conjI allI impI ballI)
      show "rid \<noteq> []" using ok unfolding room_ok_def by blast
    next
      fix s assume "sender (room\<lparr>sender := Some ws\<rparr>) = Some s"
      then have s: "s = ws" by simp
      show "s \<notin> set (receivers (room\<lparr>sender := Some ws\<rparr>))" using nm[OF room] s by simp
      show "\<exists>m. socketMeta ?h' s = Some m \<and> roomName m = Some rid \<and> role m = Some ''sender''"
        using s by simp
    next
      fix x assume "x \<in> set (receivers (room\<lparr>sender := Some ws\<rparr>))"
      then have x: "x \<in> set (receivers room)" by simp
      then have "x \<noteq> ws" using nm[OF room] by blast
      moreover from ok x obtain m where "socketMeta h x = Some m \<and> roomName m = Some rid \<and> role m \<noteq> Some ''sender''"
        unfolding room_ok_def by blast
      ultimately show "\<exists>m. socketMeta ?h' x = Some m \<and> roomName m = Some rid \<and> role m \<noteq> Some ''sender''"
        by simp
    qed
  next
    case False
    with a have r: "rooms h rn = Some r" by simp
    show ?thesis
      by (rule room_ok_cong[OF inv_room_ok[OF inv r]]) (use nm[OF r] in auto)
  qed
next
  fix s m assume a: "socketMeta ?h' s = Some m"
  show "session_ok ?h' s m"
  proof (cases "s = ws")
    case True
    with a have "m = meta\<lparr>roomName := Some rid, role := Some ''sender''\<rparr>" by simp
    moreover have "rid \<noteq> []" using inv_room_ok[OF inv room] unfolding room_ok_def by blast
    ultimately show ?thesis unfolding True session_ok_def by simp
  next
    case False
    with a have m: "socketMeta h s = Some m" by simp
    show ?thesis
      by (rule session_ok_mono[OF inv_session_ok[OF inv m]]) (use room vacant in auto)
  qed
qed


lemma inv_replace_sender:
  assumes inv: "hub_inv h" and room: "rooms h rid = Some room"
    and live: "socketMeta h ws = Some meta" and fresh: "roomName meta = None"
    and old: "sender room = Some old" and om: "socketMeta h old = Some oldMeta"
  shows "hub_inv \<lparr>rooms = (rooms h)(rid \<mapsto> room\<lparr>receivers := set_add old (receivers room),
                                                 sender := Some ws\<rparr>),
                  socketMeta = (socketMeta h)(ws \<mapsto> meta\<lparr>roomName := Some rid, role := Some ''sender''\<rparr>,
                                              old \<mapsto> oldMeta\<lparr>role := Some ''receiver''\<rparr>)\<rparr>"
    (is "hub_inv ?h'")
proof -
  have nm: "sender r \<noteq> Some ws \<and> ws \<notin> set (receivers r)" if "rooms h rn = Some r" for rn r
    using not_member[OF inv that] live fresh by blast
  have ok: "room_ok h rid room" by (rule inv_room_ok[OF inv room])
  have rid: "rid \<noteq> []" using ok unfolding room_ok_def by blast
  have neq: "old \<noteq> ws" using nm[OF room] old by auto
  have old_out: "old \<notin> set (receivers room)" using ok old unfolding room_ok_def by blast
  have old_name: "roomName oldMeta = Some rid" using ok old om unfolding room_ok_def by auto
  have old_role: "role oldMeta = Some ''sender''" using ok old om unfolding room_ok_def by auto
  let ?room' = "room\<lparr>receivers := set_add old (receivers room), sender := Some ws\<rparr>"
  show ?thesis
  proof (rule hub_invI)
    fix rn r assume a: "rooms ?h' rn = Some r"
    show "room_ok ?h' rn r"
    proof (cases "rn = rid")
      case True
      with a have r: "r = ?room'" by simp
      show ?thesis unfolding True r room_ok_def
      proof (intro conjI allI impI ballI)
        show "rid \<noteq> []" by (rule rid)
      next
        fix s assume "sender ?room' = Some s"
        then have s: "s = ws" by simp
        show "s \<notin> set (receivers ?room')" using nm[OF room] s neq by (simp add: set_add_def)
        show "\<exists>m. socketMeta ?h' s = Some m \<and> roomName m = Some rid \<and> role m = Some ''sender''"
          using s neq by simp
      next
        fix x assume "x \<in> set (receivers ?room')"
        then have x: "x = old \<or> x \<in> set (receivers room)" by (auto simp: set_add_def split: if_splits)
        show "\<exists>m. socketMeta ?h' x = Some m \<and> roomName m = Some rid \<and> role m \<noteq> Some ''sender''"
        proof (cases "x = old")
          case True
          then show ?thesis using old_name by simp
        next
          case False
          with x have xin: "x \<in> set (receivers room)" by blast
          then have "x \<noteq> ws" using nm[OF room] by blast
          moreover from ok xin obtain m where
            "socketMeta h x = Some m \<and> roomName m = Some rid \<and> role m \<noteq> Some ''sender''"
            unfolding room_ok_def by blast
          ultimately show ?thesis using False by simp
        qed
      qed
    next
      case False
      with a have r: "rooms h rn = Some r" by simp
      have "sender r \<noteq> Some old \<and> old \<notin> set (receivers r)"
      proof (rule ccontr)
        assume "\<not> ?thesis"
        then have "sender r = Some old \<or> old \<in> set (receivers r)" by blast
        from member_roomName[OF inv_room_ok[OF inv r] this] om old_name False show False by auto
      qed
      then show ?thesis
        using nm[OF r] by (intro room_ok_cong[OF inv_room_ok[OF inv r]]) auto
    qed
  next
    fix s m assume a: "socketMeta ?h' s = Some m"
    show "session_ok ?h' s m"
    proof (cases "s = old")
      case True
      with a have "m = oldMeta\<lparr>role := Some ''receiver''\<rparr>" by simp
      then show ?thesis unfolding True session_ok_def using old_name rid by (simp add: set_add_def)
    next
      case notold: False
      show ?thesis
      proof (cases "s = ws")
        case True
        with a neq have "m = meta\<lparr>roomName := Some rid, role := Some ''sender''\<rparr>" by simp
        then show ?thesis unfolding True session_ok_def using rid by simp
      next
        case False
        with a notold have m: "socketMeta h s = Some m" by simp
        show ?thesis
          by (rule session_ok_mono[OF inv_session_ok[OF inv m]])
             (use room old notold in \<open>auto simp: set_add_def\<close>)
      qed
    qed
  qed
qed

text \<open>Removing a session from its room and from the session table, with the room kept or
  (when it has become empty) deleted.\<close>

lemma inv_remove:
  assumes inv: "hub_inv h" and room: "rooms h rn = Some room"
    and live: "socketMeta h ws = Some meta" and name: "roomName meta = Some rn"
    and gone: "sender room1 \<noteq> Some ws" "ws \<notin> set (receivers room1)"
    and keep_s: "\<And>s. s \<noteq> ws \<Longrightarrow> sender room1 = Some s \<longleftrightarrow> sender room = Some s"
    and keep_r: "\<And>s. s \<noteq> ws \<Longrightarrow> s \<in> set (receivers room1) \<longleftrightarrow> s \<in> set (receivers room)"
  shows "hub_inv \<lparr>rooms = (if sender room1 = None \<and> receivers room1 = []
                           then (rooms h)(rn := None) else (rooms h)(rn \<mapsto> room1)),
                  socketMeta = (socketMeta h)(ws := None)\<rparr>"
    (is "hub_inv ?h'")
proof -
  have ok: "room_ok h rn room" by (rule inv_room_ok[OF inv room])
  have other: "sender r \<noteq> Some ws \<and> ws \<notin> set (receivers r)" if "rooms h k = Some r" "k \<noteq> rn" for k r
  proof (rule ccontr)
    assume "\<not> ?thesis"
    then have "sender r = Some ws \<or> ws \<in> set (receivers r)" by blast
    from member_roomName[OF inv_room_ok[OF inv that(1)] this] live name that(2) show False by auto
  qed
  show ?thesis
  proof (rule hub_invI)
    fix k r assume a: "rooms ?h' k = Some r"
    show "room_ok ?h' k r"
    proof (cases "k = rn")
      case True
      with a have r: "r = room1" by (auto split: if_splits)
      show ?thesis unfolding True r room_ok_def
      proof (intro conjI allI impI ballI)
        show "rn \<noteq> []" using ok unfolding room_ok_def by blast
      next
        fix s assume s: "sender room1 = Some s"
        then have ne: "s \<noteq> ws" using gone(1) by auto
        then have s': "sender room = Some s" using keep_s s by blast
        then have "s \<notin> set (receivers room)" using ok unfolding room_ok_def by blast
        then show "s \<notin> set (receivers room1)" using keep_r ne by blast
        from ok s' obtain m where "socketMeta h s = Some m \<and> roomName m = Some rn \<and> role m = Some ''sender''"
          unfolding room_ok_def by blast
        then show "\<exists>m. socketMeta ?h' s = Some m \<and> roomName m = Some rn \<and> role m = Some ''sender''"
          using ne by simp
      next
        fix x assume x: "x \<in> set (receivers room1)"
        then have ne: "x \<noteq> ws" using gone(2) by auto
        then have "x \<in> set (receivers room)" using keep_r x by blast
        with ok obtain m where "socketMeta h x = Some m \<and> roomName m = Some rn \<and> role m \<noteq> Some ''sender''"
          unfolding room_ok_def by blast
        then show "\<exists>m. socketMeta ?h' x = Some m \<and> roomName m = Some rn \<and> role m \<noteq> Some ''sender''"
          using ne by simp
      qed
    next
      case False
      with a have r: "rooms h k = Some r" by (auto split: if_splits)
      show ?thesis
        by (rule room_ok_cong[OF inv_room_ok[OF inv r]]) (use other[OF r False] in auto)
    qed
  next
    fix s m assume a: "socketMeta ?h' s = Some m"
    then have ne: "s \<noteq> ws" and m: "socketMeta h s = Some m" by (auto split: if_splits)
    show "session_ok ?h' s m"
    proof (rule session_ok_mono[OF inv_session_ok[OF inv m]])
      fix k r assume k: "roomName m = Some k" and r: "rooms h k = Some r"
      show "\<exists>room'. rooms ?h' k = Some room' \<and>
              (role m = Some ''sender'' \<longrightarrow> sender r = Some s \<longrightarrow> sender room' = Some s) \<and>
              (role m \<noteq> Some ''sender'' \<longrightarrow> s \<in> set (receivers r) \<longrightarrow> s \<in> set (receivers room'))"
      proof (cases "k = rn")
        case False
        then show ?thesis using r by simp
      next
        case True
        have mem: "if role m = Some ''sender'' then sender room = Some s else s \<in> set (receivers room)"
          using inv_session_ok[OF inv m] k room unfolding session_ok_def True by auto
        have mem1: "if role m = Some ''sender'' then sender room1 = Some s else s \<in> set (receivers room1)"
          using mem keep_s[OF ne] keep_r[OF ne] by (auto split: if_splits)
        then have "\<not> (sender room1 = None \<and> receivers room1 = [])" by (auto split: if_splits)
        then have "rooms ?h' k = Some room1" unfolding True by simp
        then show ?thesis using mem1 by (auto split: if_splits)
      qed
    qed simp_all
  qed
qed


lemma inv_forget:
  assumes inv: "hub_inv h" and live: "socketMeta h ws = Some meta" and fresh: "roomName meta = None"
  shows "hub_inv (h\<lparr>socketMeta := (socketMeta h)(ws := None)\<rparr>)" (is "hub_inv ?h'")
proof (rule hub_invI)
  fix rn r assume "rooms ?h' rn = Some r"
  then have r: "rooms h rn = Some r" by simp
  have "sender r \<noteq> Some ws \<and> ws \<notin> set (receivers r)"
    using not_member[OF inv r] live fresh by blast
  then show "room_ok ?h' rn r"
    by (intro room_ok_cong[OF inv_room_ok[OF inv r]]) auto
next
  fix s m assume "socketMeta ?h' s = Some m"
  then have m: "socketMeta h s = Some m" by (auto split: if_splits)
  show "session_ok ?h' s m"
    by (rule session_ok_mono[OF inv_session_ok[OF inv m]]) auto
qed

lemma inv_getRoom:
  assumes inv: "hub_inv h" and rid: "rid \<noteq> []" and g: "getRoom (rooms h) rid rnd = (rs1, room)"
  shows "hub_inv (h\<lparr>rooms := rs1\<rparr>)" and "rs1 rid = Some room"
proof -
  from getRoom_cases[OF g] show "rs1 rid = Some room" by auto
  from getRoom_cases[OF g] show "hub_inv (h\<lparr>rooms := rs1\<rparr>)"
  proof
    assume "rooms h rid = Some room \<and> rs1 = rooms h"
    then show ?thesis using inv by simp
  next
    assume a: "rooms h rid = None \<and> room = \<lparr>sender = None, receivers = [], code = generateRoomCode rnd\<rparr>
            \<and> rs1 = (rooms h)(rid \<mapsto> room)"
    then show ?thesis using inv_create[OF inv _ rid, of "generateRoomCode rnd"] by simp
  qed
qed

lemma inv_join:
  assumes inv: "hub_inv h" and live: "socketMeta h ws = Some meta" and fresh: "roomName meta = None"
    and j: "join h ws msg rnd = Inr (h', out)"
  shows "hub_inv h'"
proof (cases "\<not> truthy (msg_room msg) \<or> \<not> truthy (msg_role msg)")
  case True
  with j have "h' = h" by (simp add: join_def)
  then show ?thesis using inv by simp
next
  case False
  then obtain rid rl where f: "msg_room msg = Some rid" "msg_role msg = Some rl" "rid \<noteq> []" "rl \<noteq> []"
    by (auto simp: truthy_def split: option.splits)
  obtain rs1 room where g: "getRoom (rooms h) rid rnd = (rs1, room)" by fastforce
  let ?h1 = "h\<lparr>rooms := rs1\<rparr>"
  have inv1: "hub_inv ?h1" and room1: "rooms ?h1 rid = Some room"
    using inv_getRoom[OF inv f(3) g] by simp_all
  have live1: "socketMeta ?h1 ws = Some meta" using live by simp
  show ?thesis
  proof (cases "rl = ''receiver'' \<and> msg_code msg \<noteq> Some (code room)")
    case True
    with j f g False have "h' = ?h1" by (simp add: join_def truthy_def)
    then show ?thesis using inv1 by simp
  next
    case accepted: False
    show ?thesis
    proof (cases "rl = ''sender''")
      case False
      with j f g accepted live have
        "h' = \<lparr>rooms = rs1(rid \<mapsto> room\<lparr>receivers := set_add ws (receivers room)\<rparr>),
               socketMeta = (socketMeta h)(ws \<mapsto> meta\<lparr>roomName := Some rid, role := Some rl\<rparr>)\<rparr>"
        by (auto simp: join_def truthy_def join_receiver_def Let_def)
      then show ?thesis
        using inv_add_receiver[OF inv1 room1 live1 fresh False] by simp
    next
      case True
      show ?thesis
      proof (cases "sender room")
        case None
        with j f g accepted live True have
          "h' = \<lparr>rooms = rs1(rid \<mapsto> room\<lparr>sender := Some ws\<rparr>),
                 socketMeta = (socketMeta h)(ws \<mapsto> meta\<lparr>roomName := Some rid, role := Some ''sender''\<rparr>)\<rparr>"
          by (auto simp: join_def truthy_def join_sender_def Let_def)
        then show ?thesis
          using inv_install_sender[OF inv1 room1 live1 fresh None] by simp
      next
        case (Some old)
        have neq: "old \<noteq> ws" using not_member[OF inv1 room1, of ws] live1 fresh Some by auto
        obtain oldMeta where om: "socketMeta h old = Some oldMeta"
          using inv_roomD(3)[OF inv1 room1 Some] by auto
        with j f g accepted live True Some neq have
          "h' = \<lparr>rooms = rs1(rid \<mapsto> room\<lparr>receivers := set_add old (receivers room), sender := Some ws\<rparr>),
                 socketMeta = (socketMeta h)(ws \<mapsto> meta\<lparr>roomName := Some rid, role := Some ''sender''\<rparr>,
                                             old \<mapsto> oldMeta\<lparr>role := Some ''receiver''\<rparr>)\<rparr>"
          by (auto simp: join_def truthy_def join_sender_def demote_def Let_def)
        moreover have "socketMeta ?h1 old = Some oldMeta" using om by simp
        ultimately show ?thesis
          using inv_replace_sender[OF inv1 room1 live1 fresh Some] by simp
      qed
    qed
  qed
qed

lemma inv_close:
  assumes inv: "hub_inv h" and c: "on_close isOpen h ws = Inr (h', out)"
  shows "hub_inv h'"
proof -
  from c obtain meta where live: "socketMeta h ws = Some meta"
    by (auto simp: on_close_def split: option.splits)
  show ?thesis
  proof (cases "roomName meta")
    case None
    with c live have "h' = h\<lparr>socketMeta := (socketMeta h)(ws := None)\<rparr>"
      by (simp add: on_close_def truthy_def)
    then show ?thesis using inv_forget[OF inv live None] by simp
  next
    case (Some rn)
    have rn: "rn \<noteq> []" by (rule inv_sessionD(1)[OF inv live Some])
    obtain room where room: "rooms h rn = Some room"
      and mem: "if role meta = Some ''sender'' then sender room = Some ws else ws \<in> set (receivers room)"
      using inv_sessionD(2)[OF inv live Some] by blast
    obtain room1 out1 where l: "leave isOpen meta ws room = (room1, out1)" by fastforce
    from c live Some rn room l have h': "h' = \<lparr>rooms = (if sender room1 = None \<and> receivers room1 = []
                           then (rooms h)(rn := None) else (rooms h)(rn \<mapsto> room1)),
                  socketMeta = (socketMeta h)(ws := None)\<rparr>"
      by (auto simp: on_close_def truthy_def)
    have role_s: "role meta = Some ''sender''" if "sender room = Some ws"
      using inv_roomD(3)[OF inv room that] live by auto
    have out_r: "ws \<notin> set (receivers room)" if "sender room = Some ws"
      using inv_roomD(2)[OF inv room that] .
    show ?thesis unfolding h'
    proof (rule inv_remove[OF inv room live Some])
      show "sender room1 \<noteq> Some ws" using l role_s by (auto simp: leave_def split: if_splits)
      show "ws \<notin> set (receivers room1)" using l out_r by (auto simp: leave_def set_delete_def split: if_splits)
      show "sender room1 = Some s \<longleftrightarrow> sender room = Some s" if "s \<noteq> ws" for s
        using l that by (auto simp: leave_def split: if_splits)
      show "s \<in> set (receivers room1) \<longleftrightarrow> s \<in> set (receivers room)" if "s \<noteq> ws" for s
        using l that by (auto simp: leave_def set_delete_def split: if_splits)
    qed
  qed
qed

lemma inv_step:
  assumes inv: "hub_inv h" and en: "enabled h e" and fj: "first_join h e"
    and st: "step isOpen h e = Inr (h', out)"
  shows "hub_inv h'"
proof (cases e)
  case (Connection ws)
  with en st inv_connection[OF inv, of ws] show ?thesis by auto
next
  case (Close ws)
  with st inv_close[OF inv] show ?thesis by auto
next
  case (Message ws msg rnd)
  with en obtain meta where live: "socketMeta h ws = Some meta" by auto
  from st Message have m: "on_message isOpen h ws msg rnd = Inr (h', out)" by simp
  consider (reg) "msg_type msg = ''register-id''" | (join) "msg_type msg = ''join''"
    | (relay) "msg_type msg \<noteq> ''register-id''" "msg_type msg \<noteq> ''join''"
        "msg_type msg = ''offer'' \<or> msg_type msg = ''answer'' \<or> msg_type msg = ''ice-candidate''"
    | (other) "msg_type msg \<noteq> ''register-id''" "msg_type msg \<noteq> ''join''"
        "\<not> (msg_type msg = ''offer'' \<or> msg_type msg = ''answer'' \<or> msg_type msg = ''ice-candidate'')"
    by blast
  then show ?thesis
  proof cases
    case reg
    with m live have "h' = h\<lparr>socketMeta := (socketMeta h)(ws \<mapsto> meta\<lparr>peerId := msg_peerId msg\<rparr>)\<rparr>"
      by (simp add: on_message_def)
    then show ?thesis using inv_register[OF inv live] by simp
  next
    case join
    with fj Message live have fresh: "roomName meta = None" by simp
    from m join have "join h ws msg rnd = Inr (h', out)" by (simp add: on_message_def)
    then show ?thesis by (rule inv_join[OF inv live fresh])
  next
    case relay
    with m have "relay isOpen h ws msg = Inr (h', out)" by (simp add: on_message_def)
    then show ?thesis using relay_state inv by blast
  next
    case other
    with m have "h' = h" by (simp add: on_message_def)
    then show ?thesis using inv by simp
  qed
qed

lemma reachable_once_inv: "reachable_once h \<Longrightarrow> hub_inv h"
  by (induction rule: reachable_once.induct) (auto intro: inv_empty inv_step)

text \<open>Under the join-at-most-once discipline the members of a registered room are live
  sessions, and the room's sender has the role \<open>sender\<close>.\<close>

lemma reachable_once_members_live:
  assumes "reachable_once h" and "rooms h rn = Some room"
    and "sender room = Some s \<or> s \<in> set (receivers room)"
  shows "socketMeta h s \<noteq> None"
  using member_roomName[OF inv_room_ok[OF reachable_once_inv[OF assms(1)] assms(2)] assms(3)]
  by auto

lemma reachable_once_sender_role:
  assumes "reachable_once h" and "rooms h rn = Some room" and "sender room = Some s"
    and "socketMeta h s = Some m"
  shows "role m = Some ''sender''"
  using inv_roomD(3)[OF reachable_once_inv[OF assms(1)] assms(2,3)] assms(4) by auto

text \<open>Under the join-at-most-once discipline the two tables agree, every role other than
  \<open>sender\<close> counting as a receiver's.\<close>

lemma membership_once:
  assumes "reachable_once h" and "socketMeta h s = Some m" and "rooms h rn = Some room"
  shows "(sender room = Some s \<longleftrightarrow> role m = Some ''sender'' \<and> roomName m = Some rn)
       \<and> (s \<in> set (receivers room) \<longleftrightarrow> role m \<noteq> Some ''sender'' \<and> roomName m = Some rn)"
proof -
  have inv: "hub_inv h" by (rule reachable_once_inv[OF assms(1)])
  have a: "role m = Some ''sender'' \<and> roomName m = Some rn" if "sender room = Some s"
    using inv_roomD(3)[OF inv assms(3) that] assms(2) by auto
  have b: "role m \<noteq> Some ''sender'' \<and> roomName m = Some rn" if "s \<in> set (receivers room)"
    using inv_roomD(4)[OF inv assms(3) that] assms(2) by auto
  have c: "if role m = Some ''sender'' then sender room = Some s else s \<in> set (receivers room)"
    if "roomName m = Some rn"
    using inv_sessionD(2)[OF inv assms(2) that] assms(3) by auto
  have c1: "sender room = Some s" if "role m = Some ''sender''" "roomName m = Some rn"
    using c[OF that(2)] that(1) by simp
  have c2: "s \<in> set (receivers room)" if "role m \<noteq> Some ''sender''" "roomName m = Some rn"
    using c[OF that(2)] that(1) by simp
  show ?thesis using a b c1 c2 by blast
qed

section \<open>The roles of the sessions in rooms\<close>

lemma join_meta:
  assumes "join h ws msg rnd = Inr (h', out)" and "socketMeta h' s = Some m'"
  shows "(\<exists>m. socketMeta h s = Some m \<and> roomName m' = roomName m \<and>
              (role m' = role m \<or> role m' = Some ''receiver''))
       \<or> (role m' = msg_role msg \<and> truthy (msg_role msg))"
proof (cases "\<not> truthy (msg_room msg) \<or> \<not> truthy (msg_role msg)")
  case True
  with assms show ?thesis by (simp add: join_def)
next
  case False
  then obtain rid rl where f: "msg_room msg = Some rid" "msg_role msg = Some rl"
    by (auto simp: truthy_def split: option.splits)
  obtain rs1 room where g: "getRoom (rooms h) rid rnd = (rs1, room)" by fastforce
  show ?thesis
    using assms False f g
    by (auto simp: join_def join_sender_def join_receiver_def demote_def Let_def
          split: if_splits option.splits sum.splits)
qed

lemma step_meta:
  assumes "step isOpen h e = Inr (h', out)" and "socketMeta h' s = Some m'"
  shows "(\<exists>m. socketMeta h s = Some m \<and> roomName m' = roomName m \<and>
              (role m' = role m \<or> role m' = Some ''receiver''))
       \<or> roomName m' = None
       \<or> (\<exists>ws msg rnd. e = Message ws msg rnd \<and> msg_type msg = ''join'' \<and>
              role m' = msg_role msg \<and> truthy (msg_role msg))"
proof (cases e)
  case (Connection ws)
  with assms show ?thesis by (auto simp: on_connection_def split: if_splits)
next
  case (Close ws)
  with assms show ?thesis
    by (auto simp: on_close_def leave_def Let_def split: option.splits if_splits prod.splits)
next
  case (Message ws msg rnd)
  with assms have m: "on_message isOpen h ws msg rnd = Inr (h', out)" by simp
  show ?thesis
  proof (cases "msg_type msg = ''join''")
    case True
    with m have "join h ws msg rnd = Inr (h', out)" by (simp add: on_message_def)
    from join_meta[OF this assms(2)] True Message show ?thesis by blast
  next
    case False
    with m assms(2) show ?thesis
      by (auto simp: on_message_def dest: relay_state split: if_splits option.splits)
  qed
qed

lemma roles_step_ok:
  assumes "roles_ok h" and "join_role_ok e" and "step isOpen h e = Inr (h', out)"
  shows "roles_ok h'"
  unfolding roles_ok_def
proof (intro allI impI)
  fix s m' assume m': "socketMeta h' s = Some m'" and named: "roomName m' \<noteq> None"
  from step_meta[OF assms(3) m'] named consider
      (old) m where "socketMeta h s = Some m" "roomName m' = roomName m"
        "role m' = role m \<or> role m' = Some ''receiver''"
    | (new) ws msg rnd where "e = Message ws msg rnd" "msg_type msg = ''join''"
        "role m' = msg_role msg" "truthy (msg_role msg)"
    by blast
  then show "role m' = Some ''sender'' \<or> role m' = Some ''receiver''"
  proof cases
    case old
    with assms(1) named show ?thesis unfolding roles_ok_def by metis
  next
    case new
    with assms(2) show ?thesis by auto
  qed
qed

lemma reachable_roles_ok: "reachable_roles h \<Longrightarrow> roles_ok h"
proof (induction rule: reachable_roles.induct)
  case roles_init
  show ?case by (simp add: roles_ok_def empty_hub_def)
next
  case (roles_step h e isOpen h' out)
  from roles_step_ok[OF roles_step.IH roles_step.hyps(4,5)] show ?case .
qed

section \<open>Denied receiver joins\<close>

text \<open>
  Claim C1 fails on the code. A receiver join without a code that names an unknown room
  is answered with \<open>join-denied\<close> (reason \<open>Room code required\<close>), but \<open>getRoom\<close> has already
  created the room: the registry, which did not hold \<open>home\<close>, holds it afterwards. For a
  room that is already registered the hub does what the claim says
  (\<open>denied_join_registered_room\<close>).
\<close>

theorem denied_join_changes_registry:
  "on_message (\<lambda>_. True) (on_connection empty_hub 0) 0
       (join_msg ''home'' ''receiver'' None) (1 / 2)
     = Inr ((on_connection empty_hub 0)
              \<lparr>rooms := [''home'' \<mapsto> \<lparr>sender = None, receivers = [], code = ''5500''\<rparr>]\<rparr>,
            [(0, JoinDenied ''Room code required'')])
   \<and> rooms (on_connection empty_hub 0) ''home'' = None"
  by (simp add: eval_defs)

section \<open>Empty rooms\<close>

text \<open>
  Claim C2 fails on the code. A receiver join without a code that names an unknown room
  is denied after \<open>getRoom\<close> has created the room: the registry then holds a room with no
  sender and no receivers, in a hub reached with no session joining twice.
\<close>

theorem denied_join_leaves_empty_room:
  "run_once (\<lambda>_. True) empty_hub
       [Connection 0, Message 0 (join_msg ''home'' ''receiver'' None) (1 / 2)]
     = Some \<lparr>rooms = [''home'' \<mapsto> \<lparr>sender = None, receivers = [], code = ''5500''\<rparr>],
             socketMeta = [0 \<mapsto> \<lparr>role = None, peerId = None, roomName = None\<rparr>]\<rparr>"
  by (simp add: eval_defs)

section \<open>A second sender\<close>

text \<open>
  Claim C3. Let room \<open>rid\<close> have the sender \<open>S\<close>, a live session, and let a different live
  session \<open>ws\<close> join it with role \<open>sender\<close>. Then \<open>S\<close>'s role becomes \<open>receiver\<close>, \<open>S\<close> is added
  to the room's receivers (the earlier receivers stay), \<open>S\<close> is sent \<open>role-changed\<close> with
  \<open>newRole: receiver\<close>, \<open>ws\<close> becomes the room's sender, and every receiver then in the
  room, \<open>S\<close> included, is sent \<open>sender-ready\<close>.
\<close>

theorem second_sender_demotes_first:
  assumes "rooms h rid = Some room" and "sender room = Some S" and "S \<noteq> ws"
    and "socketMeta h ws = Some meta" and "socketMeta h S = Some metaS"
    and "msg_type msg = ''join''" and "msg_room msg = Some rid" and "rid \<noteq> []"
    and "msg_role msg = Some ''sender''"
  shows "\<exists>h' out room'.
           on_message isOpen h ws msg rnd = Inr (h', out)
         \<and> socketMeta h' S = Some (metaS\<lparr>role := Some ''receiver''\<rparr>)
         \<and> rooms h' rid = Some room'
         \<and> sender room' = Some ws
         \<and> receivers room' = set_add S (receivers room)
         \<and> S \<in> set (receivers room')
         \<and> set (receivers room) \<subseteq> set (receivers room')
         \<and> out = [(S, RoleChanged ''receiver''), (ws, RoomCode (code room))]
                   @ map (\<lambda>r. (r, SenderReady)) (receivers room')
                   @ [(ws, Joined ''sender'')]
         \<and> (\<forall>r\<in>set (receivers room'). (r, SenderReady) \<in> set out)"
proof -
  let ?room' = "room\<lparr>receivers := set_add S (receivers room), sender := Some ws\<rparr>"
  let ?out = "[(S, RoleChanged ''receiver''), (ws, RoomCode (code room))]
                @ map (\<lambda>r. (r, SenderReady)) (receivers ?room') @ [(ws, Joined ''sender'')]"
  have "on_message isOpen h ws msg rnd =
      Inr (\<lparr>rooms = (rooms h)(rid \<mapsto> ?room'),
            socketMeta = (socketMeta h)(ws \<mapsto> meta\<lparr>roomName := Some rid, role := Some ''sender''\<rparr>,
                                        S \<mapsto> metaS\<lparr>role := Some ''receiver''\<rparr>)\<rparr>, ?out)"
    using assms
    by (simp add: on_message_def join_def truthy_def getRoom_def join_sender_def demote_def Let_def)
  moreover have "S \<in> set (receivers ?room')" "set (receivers room) \<subseteq> set (receivers ?room')"
    by (auto simp: set_add_def)
  moreover have "\<forall>r\<in>set (receivers ?room'). (r, SenderReady) \<in> set ?out"
    by auto
  ultimately show ?thesis by simp
qed

theorem second_sender_demotes_first_witness:
  "sent_by (on_message (\<lambda>_. True) example_hub 3 (join_msg ''home'' ''sender'' None) (1 / 2))
     = [(0, RoleChanged ''receiver''), (3, RoomCode ''5500''),
        (1, SenderReady), (2, SenderReady), (0, SenderReady), (3, Joined ''sender'')]"
  using second_sender_demotes_first
    [of example_hub "''home''" example_room 0 3
        "\<lparr>role = None, peerId = Some ''d'', roomName = None\<rparr>"
        "\<lparr>role = Some ''sender'', peerId = Some ''a'', roomName = Some ''home''\<rparr>"
        "join_msg ''home'' ''sender'' None" "\<lambda>_. True" "1 / 2"]
  by (auto simp: sent_by_def join_msg_def example_hub_def example_room_def set_add_def)

section \<open>Sender and receivers are disjoint\<close>

text \<open>
  Claim C4. In every hub reachable by connection, message (join, relay, register-id, any
  other) and close events in which each session joins at most once, the sender of a room,
  if present, is not in the room's receivers.
\<close>

theorem sender_not_receiver:
  assumes "reachable_once h" and "rooms h rn = Some room" and "sender room = Some s"
  shows "s \<notin> set (receivers room)"
  using inv_roomD(2)[OF reachable_once_inv[OF assms(1)] assms(2,3)] .

theorem sender_not_receiver_witness: "(0::nat) \<notin> set (receivers example_room)"
  using sender_not_receiver[OF example_reachable_once, of "''home''" example_room 0]
  by (simp add: example_hub_def example_room_def)

section \<open>Relay routing\<close>



section \<open>The order of the replies to a join\<close>

text \<open>
  Claim C6, as stated, fails: a joining sender receives \<open>room-code\<close> first and \<open>joined\<close> last,
  and a joining receiver in a room with a sender receives \<open>sender-ready\<close> first and \<open>joined\<close>
  last.
\<close>

theorem join_reply_order_counterexample:
  "replies_to 0 (on_message (\<lambda>_. True) (on_connection empty_hub 0) 0
                   (join_msg ''home'' ''sender'' None) (1 / 2))
     = [RoomCode ''5500'', Joined ''sender'']
   \<and> replies_to 0 (on_message (\<lambda>_. True) (on_connection empty_hub 0) 0
                   (join_msg ''home'' ''sender'' None) (1 / 2))
     \<noteq> [Joined ''sender'', RoomCode ''5500'']
   \<and> replies_to 3 (on_message (\<lambda>_. True) example_hub 3
                   (join_msg ''home'' ''receiver'' (Some ''5500'')) (1 / 2))
     = [SenderReady, Joined ''receiver'']"
  by (simp add: eval_defs replies_to_def example_hub_def example_room_def)

text \<open>
  Claim C6, amended. On every successful join the join confirmation is the last message
  the session receives, after the follow-up messages. A joining sender (the room's former
  sender, if any, being a live session) receives \<open>room-code\<close> carrying the room's access
  code, then one \<open>sender-ready\<close> for each time it is itself among the room's receivers, then
  \<open>joined\<close> with role \<open>sender\<close>. A session whose join takes the receiver branch (role
  \<open>receiver\<close> with the room's code) receives \<open>sender-ready\<close> if the room has a
  sender, and then \<open>joined\<close> with its role; without a sender it receives \<open>joined\<close> alone.
  In both branches \<open>joined\<close> is also the last message of all that the handler sends.
\<close>

theorem join_reply_order:
  assumes "socketMeta h ws = Some meta"
    and "msg_type msg = ''join''" and "msg_room msg = Some rid" and "rid \<noteq> []"
    and "getRoom (rooms h) rid rnd = (rooms1, room)"
  shows "(msg_role msg = Some ''sender'' \<and> (\<forall>old. sender room = Some old \<longrightarrow> socketMeta h old \<noteq> None) \<longrightarrow>
            replies_to ws (on_message isOpen h ws msg rnd) =
              RoomCode (code room) # map (\<lambda>r. SenderReady) (filter (\<lambda>r. r = ws) (receivers room))
                @ [Joined ''sender'']
          \<and> last (sent_by (on_message isOpen h ws msg rnd)) = (ws, Joined ''sender''))
    \<and> (msg_role msg = Some ''receiver'' \<and> msg_code msg = Some (code room) \<longrightarrow>
            replies_to ws (on_message isOpen h ws msg rnd) =
              (if sender room \<noteq> None then [SenderReady] else []) @ [Joined ''receiver'']
          \<and> sent_by (on_message isOpen h ws msg rnd) =
              (if sender room \<noteq> None then [(ws, SenderReady)] else []) @ [(ws, Joined ''receiver'')])"
  using assms
  by (auto simp: on_message_def join_def truthy_def join_sender_def join_receiver_def demote_def
        replies_to_def sent_by_def set_add_def Let_def filter_map comp_def
        split: option.splits)

theorem join_reply_order_witness:
  "replies_to 3 (on_message (\<lambda>_. True) example_hub 3 (join_msg ''home'' ''sender'' None) (1 / 2))
     = [RoomCode ''5500'', Joined ''sender'']
   \<and> replies_to 3 (on_message (\<lambda>_. True) example_hub 3
                   (join_msg ''home'' ''receiver'' (Some ''5500'')) (1 / 2))
     = [SenderReady, Joined ''receiver'']
   \<and> replies_to 0 (on_message (\<lambda>_. True)
                    ((on_connection empty_hub 0)
                       \<lparr>rooms := [''home'' \<mapsto> \<lparr>sender = None, receivers = [], code = ''5500''\<rparr>]\<rparr>)
                    0 (join_msg ''home'' ''receiver'' (Some ''5500'')) (1 / 2))
     = [Joined ''receiver'']"
  using
    join_reply_order[of example_hub 3 "\<lparr>role = None, peerId = Some ''d'', roomName = None\<rparr>"
      "join_msg ''home'' ''sender'' None" "''home''" "1 / 2" "rooms example_hub" example_room
      "\<lambda>_. True"]
    join_reply_order[of example_hub 3 "\<lparr>role = None, peerId = Some ''d'', roomName = None\<rparr>"
      "join_msg ''home'' ''receiver'' (Some ''5500'')" "''home''" "1 / 2" "rooms example_hub"
      example_room "\<lambda>_. True"]
    join_reply_order[of
      "(on_connection empty_hub 0)
         \<lparr>rooms := [''home'' \<mapsto> \<lparr>sender = None, receivers = [], code = ''5500''\<rparr>]\<rparr>"
      0 "\<lparr>role = None, peerId = None, roomName = None\<rparr>"
      "join_msg ''home'' ''receiver'' (Some ''5500'')" "''home''" "1 / 2"
      "[''home'' \<mapsto> \<lparr>sender = None, receivers = [], code = ''5500''\<rparr>]"
      "\<lparr>sender = None, receivers = [], code = ''5500''\<rparr>" "\<lambda>_. True"]
  by (simp add: example_hub_def example_room_def join_msg_def getRoom_def on_connection_def
        empty_hub_def)

section \<open>Connection close\<close>

text \<open>
  Claim C7. Let a live session close. If it never completed a join, no room and no
  registry entry changes and nothing is sent (its session entry is dropped). Otherwise, in
  its room:
  if the session is the room's current sender (\<open>room.sender\<close> is the session and its recorded
  role is \<open>sender\<close>), the room's sender is cleared, the receivers are unchanged and every
  receiver whose connection is open is sent \<open>sender-left\<close>;
  otherwise exactly that session is removed from the receivers, and the room's sender, if
  present and open, is sent \<open>receiver-left\<close> with the session's registered peer identity.
  In both cases the room is removed from the registry when it is left without sender and
  without receivers, and no other room changes. In a hub reached with each session joining
  at most once, a session that is \<open>room.sender\<close> has the role \<open>sender\<close>, so there the first
  case is exactly "\<open>room.sender\<close> is the session".
\<close>

theorem close_reconciles:
  assumes "socketMeta h ws = Some meta"
  shows "(roomName meta = None \<longrightarrow>
            on_close isOpen h ws = Inr (h\<lparr>socketMeta := (socketMeta h)(ws := None)\<rparr>, []))
    \<and> (\<forall>rn room. roomName meta = Some rn \<and> rn \<noteq> [] \<and> rooms h rn = Some room \<longrightarrow>
         (role meta = Some ''sender'' \<and> sender room = Some ws \<longrightarrow>
            on_close isOpen h ws =
              Inr (\<lparr>rooms = (if receivers room = [] then (rooms h)(rn := None)
                              else (rooms h)(rn \<mapsto> room\<lparr>sender := None\<rparr>)),
                    socketMeta = (socketMeta h)(ws := None)\<rparr>,
                   map (\<lambda>r. (r, SenderLeft)) (filter isOpen (receivers room))))
       \<and> (\<not> (role meta = Some ''sender'' \<and> sender room = Some ws) \<longrightarrow>
            on_close isOpen h ws =
              Inr (\<lparr>rooms = (if sender room = None \<and> set_delete ws (receivers room) = []
                              then (rooms h)(rn := None)
                              else (rooms h)(rn \<mapsto> room\<lparr>receivers := set_delete ws (receivers room)\<rparr>)),
                    socketMeta = (socketMeta h)(ws := None)\<rparr>,
                   case sender room of
                     None \<Rightarrow> []
                   | Some s \<Rightarrow> if isOpen s then [(s, ReceiverLeft (peerId meta))] else []))
       \<and> set (set_delete ws (receivers room)) = set (receivers room) - {ws}
       \<and> set_delete ws (receivers room) = filter (\<lambda>r. r \<noteq> ws) (receivers room)
       \<and> (reachable_once h \<and> sender room = Some ws \<longrightarrow> role meta = Some ''sender''))"
proof -
  have del: "set_delete ws xs = filter (\<lambda>r. r \<noteq> ws) xs" for xs
    by (induction xs) (auto simp: set_delete_def)
  have once: "role meta = Some ''sender''"
    if "reachable_once h" "rooms h rn = Some room" "sender room = Some ws" for rn room
    using reachable_once_sender_role[OF that assms] .
  have main: "(roomName meta = None \<longrightarrow>
            on_close isOpen h ws = Inr (h\<lparr>socketMeta := (socketMeta h)(ws := None)\<rparr>, []))
    \<and> (\<forall>rn room. roomName meta = Some rn \<and> rn \<noteq> [] \<and> rooms h rn = Some room \<longrightarrow>
         (role meta = Some ''sender'' \<and> sender room = Some ws \<longrightarrow>
            on_close isOpen h ws =
              Inr (\<lparr>rooms = (if receivers room = [] then (rooms h)(rn := None)
                              else (rooms h)(rn \<mapsto> room\<lparr>sender := None\<rparr>)),
                    socketMeta = (socketMeta h)(ws := None)\<rparr>,
                   map (\<lambda>r. (r, SenderLeft)) (filter isOpen (receivers room))))
       \<and> (\<not> (role meta = Some ''sender'' \<and> sender room = Some ws) \<longrightarrow>
            on_close isOpen h ws =
              Inr (\<lparr>rooms = (if sender room = None \<and> set_delete ws (receivers room) = []
                              then (rooms h)(rn := None)
                              else (rooms h)(rn \<mapsto> room\<lparr>receivers := set_delete ws (receivers room)\<rparr>)),
                    socketMeta = (socketMeta h)(ws := None)\<rparr>,
                   case sender room of
                     None \<Rightarrow> []
                   | Some s \<Rightarrow> if isOpen s then [(s, ReceiverLeft (peerId meta))] else [])))"
    using assms
    by (auto simp: on_close_def leave_def truthy_def Let_def split: option.splits)
  have extra: "\<forall>rn room. roomName meta = Some rn \<and> rn \<noteq> [] \<and> rooms h rn = Some room \<longrightarrow>
         set (set_delete ws (receivers room)) = set (receivers room) - {ws}
       \<and> set_delete ws (receivers room) = filter (\<lambda>r. r \<noteq> ws) (receivers room)
       \<and> (reachable_once h \<and> sender room = Some ws \<longrightarrow> role meta = Some ''sender'')"
  proof (intro allI impI conjI)
    fix rn and room :: Room
    show "set (set_delete ws (receivers room)) = set (receivers room) - {ws}"
      by (auto simp: set_delete_def)
    show "set_delete ws (receivers room) = filter (\<lambda>r. r \<noteq> ws) (receivers room)"
      by (rule del)
    assume "roomName meta = Some rn \<and> rn \<noteq> [] \<and> rooms h rn = Some room"
      and "reachable_once h \<and> sender room = Some ws"
    then show "role meta = Some ''sender''" using once by blast
  qed
  from main extra show ?thesis by blast
qed

theorem close_reconciles_witness:
  "on_close (\<lambda>r. r \<noteq> 1) example_hub 0
     = Inr (\<lparr>rooms = (rooms example_hub)(''home'' \<mapsto> example_room\<lparr>sender := None\<rparr>),
             socketMeta = (socketMeta example_hub)(0 := None)\<rparr>,
            [(2, SenderLeft)])
   \<and> on_close (\<lambda>r. True) example_hub 1
     = Inr (\<lparr>rooms = (rooms example_hub)(''home'' \<mapsto> example_room\<lparr>receivers := [2]\<rparr>),
             socketMeta = (socketMeta example_hub)(1 := None)\<rparr>,
            [(0, ReceiverLeft (Some ''b''))])
   \<and> on_close (\<lambda>r. True) example_hub 3
     = Inr (example_hub\<lparr>socketMeta := (socketMeta example_hub)(3 := None)\<rparr>, [])"
  using
    close_reconciles[of example_hub 0
      "\<lparr>role = Some ''sender'', peerId = Some ''a'', roomName = Some ''home''\<rparr>" "\<lambda>r. r \<noteq> 1"]
    close_reconciles[of example_hub 1
      "\<lparr>role = Some ''receiver'', peerId = Some ''b'', roomName = Some ''home''\<rparr>" "\<lambda>r. True"]
    close_reconciles[of example_hub 3
      "\<lparr>role = None, peerId = Some ''d'', roomName = None\<rparr>" "\<lambda>r. True"]
  by (simp add: example_hub_def example_room_def set_delete_def)

section \<open>Agreement of session state and room state\<close>

text \<open>
  Claim C8, as stated, fails. A session that joins room \<open>x\<close> and then room \<open>y\<close>, both as
  sender, remains the sender of \<open>x\<close> while the room it records is \<open>y\<close>.
\<close>

theorem membership_agrees_counterexample:
  "run (\<lambda>_. True) empty_hub double_join_events = Some double_join_hub
   \<and> \<not> membership_agrees double_join_hub"
proof (intro conjI)
  show "run (\<lambda>_. True) empty_hub double_join_events = Some double_join_hub"
    by (simp add: double_join_events_def double_join_hub_def eval_defs)
  show "\<not> membership_agrees double_join_hub"
  proof
    assume "membership_agrees double_join_hub"
    then have "sender \<lparr>sender = Some 0, receivers = [], code = ''5500''\<rparr> = Some (0::nat) \<longleftrightarrow>
          role \<lparr>role = Some ''sender'', peerId = None, roomName = Some ''y''\<rparr> = Some ''sender'' \<and>
          roomName \<lparr>role = Some ''sender'', peerId = None, roomName = Some ''y''\<rparr> = Some ''x''"
      unfolding membership_agrees_def
      by (elim allE[where x = 0] allE[where x = "''x''"]
            allE[where x = "\<lparr>role = Some ''sender'', peerId = None, roomName = Some ''y''\<rparr>"]
            allE[where x = "\<lparr>sender = Some 0, receivers = [], code = ''5500''\<rparr>"])
         (simp add: double_join_hub_def)
    then show False by simp
  qed
qed

text \<open>
  Claim C8, amended. In every hub reachable by events in which each session joins at most
  once and every join request names the role \<open>sender\<close> or \<open>receiver\<close>, session state and room
  state agree: for every live session and every registered room, \<open>room.sender\<close> is the
  session iff the session's role is \<open>sender\<close> and its \<open>roomName\<close> is the room's name, and the
  session is in \<open>room.receivers\<close> iff its role is \<open>receiver\<close> and its \<open>roomName\<close> is the room's
  name.
\<close>

theorem membership_agrees_roles:
  assumes "reachable_roles h"
  shows "membership_agrees h"
  unfolding membership_agrees_def
proof (intro allI impI)
  fix s m rn room
  assume m: "socketMeta h s = Some m" and room: "rooms h rn = Some room"
  have roles: "role m = Some ''sender'' \<or> role m = Some ''receiver''" if "roomName m = Some rn"
    using reachable_roles_ok[OF assms] m that unfolding roles_ok_def by auto
  from membership_once[OF reachable_roles_once[OF assms] m room] roles
  show "(sender room = Some s \<longleftrightarrow> role m = Some ''sender'' \<and> roomName m = Some rn)
      \<and> (s \<in> set (receivers room) \<longleftrightarrow> role m = Some ''receiver'' \<and> roomName m = Some rn)"
    by auto
qed

theorem membership_agrees_roles_witness: "membership_agrees example_hub"
  using membership_agrees_roles[OF example_reachable_roles] .

section \<open>The access code\<close>

text \<open>
  Claim C9. After every step of the hub from a reachable state (any join, relay,
  register-id or other message, connection or close; \<open>Math.random()\<close> returning a double in
  \<open>[0, 1)\<close>), every room in the registry has an access code of exactly four decimal digits,
  the decimal rendering of an integer in 1000..9999; if the room was in the registry before
  the step its code is the one it had, and otherwise the step handled a message and the code
  is the one \<open>generateRoomCode\<close> produced in that step. So a code is generated once, when
  \<open>getRoom\<close> creates the room, and no operation changes it while the room stays in the
  registry.
\<close>

theorem access_code_fixed:
  assumes "reachable h" and "enabled h e" and "double_draw e"
    and "step isOpen h e = Inr (h', out)" and "rooms h' rn = Some room'"
  shows "four_digit_code (code room') \<and>
         (case rooms h rn of
            Some room \<Rightarrow> code room' = code room
          | None \<Rightarrow> \<exists>ws msg rnd. e = Message ws msg rnd \<and> code room' = generateRoomCode rnd)"
  using reachable_codes[OF reachable_step[OF assms(1,2,3,4)] assms(5)] step_rooms[OF assms(4,5)]
  by simp

theorem access_code_fixed_witness:
  "four_digit_code (generateRoomCode (1 / 2))
   \<and> code (example_room\<lparr>receivers := [1, 2, 3]\<rparr>) = code example_room"
proof -
  let ?m = "\<lparr>role = None, peerId = Some ''d'', roomName = None\<rparr>"
  let ?den = "\<lparr>sender = Some 3, receivers = [], code = generateRoomCode (1 / 2)\<rparr>"
  have e1: "enabled example_hub (Message 3 (join_msg ''den'' ''sender'' None) (1 / 2))"
    and e2: "enabled example_hub (Message 3 (join_msg ''home'' ''receiver'' (Some ''5500'')) (1 / 2))"
    by (simp_all add: example_hub_def)
  have d1: "double_draw (Message 3 (join_msg ''den'' ''sender'' None) (1 / 2))"
    and d2: "double_draw (Message 3 (join_msg ''home'' ''receiver'' (Some ''5500'')) (1 / 2))"
    by (simp_all add: is_double_half)
  have s1: "step (\<lambda>_. True) example_hub (Message 3 (join_msg ''den'' ''sender'' None) (1 / 2))
      = Inr (\<lparr>rooms = (rooms example_hub)(''den'' \<mapsto> ?den),
              socketMeta = (socketMeta example_hub)(3 \<mapsto> ?m\<lparr>roomName := Some ''den'', role := Some ''sender''\<rparr>)\<rparr>,
             [(3, RoomCode (generateRoomCode (1 / 2))), (3, Joined ''sender'')])"
    by (simp add: example_hub_def example_room_def on_message_def join_def join_sender_def
          getRoom_def truthy_def join_msg_def Let_def)
  have s2: "step (\<lambda>_. True) example_hub
        (Message 3 (join_msg ''home'' ''receiver'' (Some ''5500'')) (1 / 2))
      = Inr (\<lparr>rooms = (rooms example_hub)(''home'' \<mapsto> example_room\<lparr>receivers := [1, 2, 3]\<rparr>),
              socketMeta = (socketMeta example_hub)(3 \<mapsto> ?m\<lparr>roomName := Some ''home'', role := Some ''receiver''\<rparr>)\<rparr>,
             [(3, SenderReady), (3, Joined ''receiver'')])"
    by (simp add: example_hub_def example_room_def on_message_def join_def join_receiver_def
          getRoom_def truthy_def join_msg_def set_add_def Let_def)
  from access_code_fixed[OF example_reachable e1 d1 s1, of "''den''" ?den]
       access_code_fixed[OF example_reachable e2 d2 s2, of "''home''" "example_room\<lparr>receivers := [1, 2, 3]\<rparr>"]
  show ?thesis by (simp add: example_hub_def)
qed

section \<open>Join requests without a room or a role\<close>

text \<open>
  Claim C10. A join message whose \<open>room\<close> or \<open>role\<close> field is missing or the empty string
  gets no reply at all and leaves the hub (registry, rooms, sessions) exactly as it was;
  in particular no room is created for the name.
\<close>

theorem join_missing_field_ignored:
  assumes "msg_type msg = ''join''"
    and "msg_room msg = None \<or> msg_room msg = Some [] \<or> msg_role msg = None \<or> msg_role msg = Some []"
  shows "on_message isOpen h ws msg rnd = Inr (h, [])"
  using assms by (auto simp: on_message_def join_def truthy_def)

theorem join_missing_field_ignored_witness:
  "on_message (\<lambda>_. True) empty_hub 0
     \<lparr>msg_type = ''join'', msg_room = Some ''home'', msg_role = None, msg_code = None,
      msg_to = None, msg_from = None, msg_peerId = None, msg_rest = []\<rparr> (1 / 2)
   = Inr (empty_hub, [])"
  using join_missing_field_ignored
    [of "\<lparr>msg_type = ''join'', msg_room = Some ''home'', msg_role = None, msg_code = None,
          msg_to = None, msg_from = None, msg_peerId = None, msg_rest = []\<rparr>"
        "\<lambda>_. True" empty_hub 0 "1 / 2"]
  by simp

end
